theory Spec2Isabelle
  imports Complex_Main "HOL-Library.AList"
begin

section \<open>Data model of the search executor\<close>

text \<open>
  The theory embeds \<^verbatim>\<open>backend/airweave/search/executor.py\<close>: the planner
  \<^verbatim>\<open>_extract_operations_from_config\<close>, the scheduler
  \<^verbatim>\<open>_find_ready_operations\<close> with \<^verbatim>\<open>_operation_exists\<close>, the emitter closure
  \<^verbatim>\<open>emit\<close>, \<^verbatim>\<open>_finalize_context\<close> and \<^verbatim>\<open>SearchExecutor.execute\<close>.

  Conventions of the embedding.
  \<^item> Durations (\<^verbatim>\<open>time.time()\<close> differences, floats in the source) are real numbers read
    from the environment; the \<^verbatim>\<open>ts\<close> field of an event is a clock reading that no
    property below depends on and is left out of the event record.
  \<^item> An operator is its \<^verbatim>\<open>name\<close>, its \<^verbatim>\<open>depends_on\<close> and the effect of one call of
    \<^verbatim>\<open>op.execute(context)\<close>: the result keys it leaves in the context, the events it
    publishes itself through \<^verbatim>\<open>context["emit"]\<close> while it runs, the time the call took,
    and how the call ended: it returned, it raised an exception of class \<^verbatim>\<open>Exception\<close>,
    or it was ended by an exception outside that class (\<^verbatim>\<open>asyncio.CancelledError\<close> when
    the task is cancelled), which \<^verbatim>\<open>except Exception\<close> does not catch.  The data of an
    operator's own event is opaque; it is taken not to contain the keys of the frame
    (\<^verbatim>\<open>type\<close>, \<^verbatim>\<open>seq\<close>, \<^verbatim>\<open>op\<close>, \<^verbatim>\<open>op_seq\<close>, \<^verbatim>\<open>ts\<close>).
  \<^item> The publisher \<^verbatim>\<open>core_pubsub.publish\<close> is imported by the executor; on which
    payloads a call of it raises is a parameter.  The sink \<^verbatim>\<open>analytics.track_event\<close> is
    imported too, and is modelled from the spec, see \<open>track_event\<close> below.
  \<^item> The logger is modelled only for the warning of the scheduler; debug and error log
    lines have no effect on the state and are taken to return.
  \<^item> The API context \<^verbatim>\<open>ctx\<close> is an object, so \<^verbatim>\<open>if ctx:\<close> in the \<^verbatim>\<open>finally\<close> block
    holds; \<^verbatim>\<open>_initialize_context\<close> has read \<^verbatim>\<open>ctx.logger\<close> before.
  \<^item> One call of \<^verbatim>\<open>execute\<close> runs its operators one after the other, so the lock of the
    emitter is never contended and is left out.
\<close>

datatype doc = Doc int

record execution_summary_rec =
  operations_executed :: nat
  total_time_ms :: real
  errors_count :: nat

text \<open>The keys of the context dictionary that the executor itself reads or writes.
  A key that may be missing is an option.\<close>

record execution_context =
  context_query :: string
  collection_slug :: "string option"
  request_id :: "string option"
  streaming_required :: "bool option"
  timings :: "(string \<times> real) list"
  errors :: "(string \<times> string) list"
  raw_results :: "doc list option"
  final_results :: "doc list option"
  execution_summary :: "execution_summary_rec option"

text \<open>How a call of \<^verbatim>\<open>op.execute\<close> can end other than by returning: with an exception
  of class \<^verbatim>\<open>Exception\<close> (its \<^verbatim>\<open>str\<close> is kept) or with one outside that class (its
  class name is kept).\<close>

datatype op_failure = RaisedException string | RaisedBaseException string

text \<open>An event published by an operator: the arguments \<^verbatim>\<open>event_type\<close>, \<^verbatim>\<open>data\<close> and
  \<^verbatim>\<open>op_name\<close> of its call of \<^verbatim>\<open>emit\<close>.\<close>

type_synonym own_event = "string \<times> string \<times> string option"

record op_effect =
  new_collection_slug :: "string option"
  new_raw_results :: "doc list option"
  new_final_results :: "doc list option"
  own_events :: "own_event list"
  elapsed_ms :: real
  failure :: "op_failure option"

record operation =
  name :: string
  depends_on :: "string list"
  run :: "execution_context \<Rightarrow> op_effect"

text \<open>\<^verbatim>\<open>SearchConfig\<close>: every operator slot is an operator or \<^verbatim>\<open>None\<close>.\<close>

record search_config =
  query :: string
  limit :: int
  offset :: int
  query_expansion :: "operation option"
  query_interpretation :: "operation option"
  qdrant_filter :: "operation option"
  embedding :: "operation option"
  vector_search :: "operation option"
  recency :: "operation option"
  reranking :: "operation option"
  completion :: "operation option"

record api_context =
  user_id :: "string option"
  organization_id :: string
  organization_name :: "string option"

datatype exn = AttributeError | OperatorError string | OperatorAbort string

datatype event_data =
    StartData "string option" string int int
  | OperatorStartData string
  | OperatorEndData string real
  | ErrorData string string
  | ResultsData "doc list"
  | SummaryData "(string \<times> real) list" "(string \<times> string) list" real
  | DoneData "string option"
  | OperatorData string

record event =
  etype :: string
  seq :: nat
  op :: "string option"
  op_seq :: "nat option"
  payload :: event_data

record analytics_properties =
  query_length :: nat
  prop_collection_slug :: string
  duration_ms :: real
  search_type :: string
  prop_organization_name :: string
  status :: string
  results_count :: "nat option"

record analytics_call =
  event_name :: string
  distinct_id :: string
  properties :: analytics_properties
  groups :: "(string \<times> string) list"

text \<open>What lies outside the executor: whether \<^verbatim>\<open>core_pubsub.publish\<close> raises on a
  payload, whether the analytics sink behind \<^verbatim>\<open>analytics.track_event\<close> fails, and the
  two clock differences read after the loop.\<close>

record env =
  publish_fails :: "event \<Rightarrow> bool"
  sink_fails :: bool
  total_time :: real
  search_duration_ms :: real

text \<open>The mutable state of one call of \<^verbatim>\<open>execute\<close>: the context, the local
  \<^verbatim>\<open>executed\<close>, the counters of the emitter closure, and the traces of the calls made
  to the outside (payloads handed to the publisher, payloads whose publication returned,
  warnings logged, operator calls with their effect, calls of \<^verbatim>\<open>track_event\<close>, events
  the analytics sink has recorded).\<close>

record exec_state =
  cxt :: execution_context
  executed :: "string set"
  global_sequence :: nat
  op_sequences :: "string \<Rightarrow> nat option"
  emitted :: "event list"
  published :: "event list"
  warnings :: "string list list"
  invoked :: "(string \<times> op_effect) list"
  tracked :: "analytics_call list"
  recorded :: "analytics_call list"

record run_result =
  raised :: "exn option"
  final :: exec_state

section \<open>Planner\<close>

definition slot :: "operation option \<Rightarrow> operation option list" where
  "slot x = (case x of None \<Rightarrow> [] | Some o1 \<Rightarrow> [Some o1])"

text \<open>The optional slots are appended when set; \<^verbatim>\<open>embedding\<close> and \<^verbatim>\<open>vector_search\<close>
  are appended as they are, \<^verbatim>\<open>None\<close> included.\<close>

definition extract_operations_from_config :: "search_config \<Rightarrow> operation option list" where
  "extract_operations_from_config config =
     slot (query_expansion config) @ slot (query_interpretation config) @
     slot (qdrant_filter config) @ [embedding config] @ [vector_search config] @
     slot (recency config) @ slot (reranking config) @ slot (completion config)"

section \<open>Scheduler\<close>

text \<open>\<^verbatim>\<open>any(op.name == name for op in operations)\<close>: stops at the first match; reading
  \<^verbatim>\<open>.name\<close> of \<^verbatim>\<open>None\<close> raises.\<close>

fun operation_exists :: "operation option list \<Rightarrow> string \<Rightarrow> exn + bool" where
  "operation_exists [] n = Inr False"
| "operation_exists (None # ops) n = Inl AttributeError"
| "operation_exists (Some o1 # ops) n =
     (if name o1 = n then Inr True else operation_exists ops n)"

text \<open>\<^verbatim>\<open>all(dep in executed or not self._operation_exists(operations, dep) for dep in ...)\<close>:
  stops at the first dependency that is neither executed nor absent.\<close>

fun deps_satisfied :: "operation option list \<Rightarrow> string set \<Rightarrow> string list \<Rightarrow> exn + bool" where
  "deps_satisfied ops ex [] = Inr True"
| "deps_satisfied ops ex (d # ds) =
     (if d \<in> ex then deps_satisfied ops ex ds
      else (case operation_exists ops d of
              Inl e \<Rightarrow> Inl e
            | Inr True \<Rightarrow> Inr False
            | Inr False \<Rightarrow> deps_satisfied ops ex ds))"

fun find_ready_from ::
  "operation option list \<Rightarrow> string set \<Rightarrow> operation option list \<Rightarrow> exn + operation list" where
  "find_ready_from ops ex [] = Inr []"
| "find_ready_from ops ex (None # rest) = Inl AttributeError"
| "find_ready_from ops ex (Some o1 # rest) =
     (if name o1 \<in> ex then find_ready_from ops ex rest
      else (case deps_satisfied ops ex (depends_on o1) of
              Inl e \<Rightarrow> Inl e
            | Inr ok \<Rightarrow>
                (case find_ready_from ops ex rest of
                   Inl e \<Rightarrow> Inl e
                 | Inr ready \<Rightarrow> Inr (if ok then o1 # ready else ready))))"

definition find_ready_operations ::
  "operation option list \<Rightarrow> string set \<Rightarrow> exn + operation list" where
  "find_ready_operations ops ex = find_ready_from ops ex ops"

section \<open>Finalization\<close>

text \<open>Python's \<^verbatim>\<open>sum\<close>: a left fold from 0.\<close>

definition py_sum :: "real list \<Rightarrow> real" where
  "py_sum xs = foldl (+) 0 xs"

definition finalize_context :: "execution_context \<Rightarrow> execution_context" where
  "finalize_context c =
     (let c1 = (case final_results c of
                  None \<Rightarrow> c\<lparr>final_results :=
                              Some (case raw_results c of None \<Rightarrow> [] | Some r \<Rightarrow> r)\<rparr>
                | Some f \<Rightarrow> c)
      in c1\<lparr>execution_summary := Some
              \<lparr>operations_executed = length (timings c1),
               total_time_ms = py_sum (map snd (timings c1)),
               errors_count = length (errors c1)\<rparr>\<rparr>)"

section \<open>Event emitter\<close>

text \<open>Truth value of an \<^verbatim>\<open>Optional[str]\<close>: \<^verbatim>\<open>None\<close> and the empty string are false.\<close>

definition truthy :: "string option \<Rightarrow> bool" where
  "truthy r = (case r of None \<Rightarrow> False | Some x \<Rightarrow> x \<noteq> [])"

text \<open>The closure \<^verbatim>\<open>emit\<close> of \<^verbatim>\<open>execute\<close>.  It does nothing without a request id.
  Otherwise the global counter is incremented, the counter of the operator too when a
  name is given, and the payload is handed to the publisher; an exception of the
  publisher is swallowed, after the counters have moved.  The argument \<open>pf\<close> tells on
  which payloads \<^verbatim>\<open>core_pubsub.publish\<close> raises.\<close>

definition emit ::
  "(event \<Rightarrow> bool) \<Rightarrow> string option \<Rightarrow> string \<Rightarrow> event_data \<Rightarrow> string option \<Rightarrow> exec_state \<Rightarrow> exec_state" where
  "emit pf rid event_type d op_name s =
     (if \<not> truthy rid then s
      else
        (let sq = global_sequence s + 1;
             (ops, op_seq_val) =
               (case op_name of
                  None \<Rightarrow> (op_sequences s, None)
                | Some n \<Rightarrow>
                    if n \<noteq> [] then
                      (let k = (case op_sequences s n of None \<Rightarrow> 0 | Some j \<Rightarrow> j) + 1
                       in ((op_sequences s)(n \<mapsto> k), Some k))
                    else (op_sequences s, None));
             p = \<lparr>etype = event_type, seq = sq, op = op_name, op_seq = op_seq_val,
                  payload = d\<rparr>
         in s\<lparr>global_sequence := sq, op_sequences := ops,
               emitted := emitted s @ [p],
               published := (if pf p then published s
                             else published s @ [p])\<rparr>))"

section \<open>Running the operators\<close>

definition apply_effect :: "op_effect \<Rightarrow> execution_context \<Rightarrow> execution_context" where
  "apply_effect eff c =
     c\<lparr>collection_slug := new_collection_slug eff,
       raw_results := new_raw_results eff,
       final_results := new_final_results eff\<rparr>"

text \<open>The events an operator publishes while it runs go through the same emitter.\<close>

fun emit_all ::
  "(event \<Rightarrow> bool) \<Rightarrow> string option \<Rightarrow> own_event list \<Rightarrow> exec_state \<Rightarrow> exec_state" where
  "emit_all pf rid [] s = s"
| "emit_all pf rid ((t, d, n) # evs) s =
     emit_all pf rid evs (emit pf rid t (OperatorData d) n s)"

text \<open>The body of \<^verbatim>\<open>for op in ready\<close>: \<^verbatim>\<open>operator_start\<close>, the call of the operator,
  then either the timing, \<^verbatim>\<open>executed.add\<close> and \<^verbatim>\<open>operator_end\<close>, or, for an exception
  of class \<^verbatim>\<open>Exception\<close>, the handler: append to \<^verbatim>\<open>errors\<close>, emit \<^verbatim>\<open>error\<close>, raise
  again.  An exception outside that class passes the handler by.\<close>

definition run_operation ::
  "(event \<Rightarrow> bool) \<Rightarrow> string option \<Rightarrow> operation \<Rightarrow> exec_state \<Rightarrow> exn option \<times> exec_state" where
  "run_operation pf rid o1 s =
     (let s1 = emit pf rid ''operator_start'' (OperatorStartData (name o1)) (Some (name o1)) s;
          eff = run o1 (cxt s1);
          s2 = (emit_all pf rid (own_events eff) s1)
                 \<lparr>cxt := apply_effect eff (cxt s1),
                  invoked := invoked s1 @ [(name o1, eff)]\<rparr>
      in case failure eff of
           None \<Rightarrow>
             (let s3 = s2\<lparr>cxt := (cxt s2)\<lparr>timings :=
                               AList.update (name o1) (elapsed_ms eff) (timings (cxt s2))\<rparr>,
                          executed := insert (name o1) (executed s2)\<rparr>
              in (None, emit pf rid ''operator_end''
                          (OperatorEndData (name o1) (elapsed_ms eff)) (Some (name o1)) s3))
         | Some (RaisedException msg) \<Rightarrow>
             (let s3 = s2\<lparr>cxt := (cxt s2)\<lparr>errors := errors (cxt s2) @ [(name o1, msg)]\<rparr>\<rparr>
              in (Some (OperatorError msg),
                  emit pf rid ''error'' (ErrorData (name o1) msg) (Some (name o1)) s3))
         | Some (RaisedBaseException cls) \<Rightarrow> (Some (OperatorAbort cls), s2))"

fun run_batch ::
  "(event \<Rightarrow> bool) \<Rightarrow> string option \<Rightarrow> operation list \<Rightarrow> exec_state \<Rightarrow> exn option \<times> exec_state" where
  "run_batch pf rid [] s = (None, s)"
| "run_batch pf rid (o1 # rest) s =
     (case run_operation pf rid o1 s of
        (Some e, s') \<Rightarrow> (Some e, s')
      | (None, s') \<Rightarrow> run_batch pf rid rest s')"

fun present :: "operation option list \<Rightarrow> operation list" where
  "present [] = []"
| "present (None # ops) = present ops"
| "present (Some o1 # ops) = o1 # present ops"

text \<open>\<^verbatim>\<open>[op.name for op in operations if op.name not in executed]\<close>.  It is evaluated only
  after \<^verbatim>\<open>_find_ready_operations\<close> has returned, when no entry of the plan is \<^verbatim>\<open>None\<close>.\<close>

definition remaining :: "operation option list \<Rightarrow> string set \<Rightarrow> string list" where
  "remaining ops ex = filter (\<lambda>n. n \<notin> ex) (map name (present ops))"

lemma executed_emit: "executed (emit pf rid t d n s) = executed s"
  by (simp add: emit_def Let_def split: option.splits prod.splits)

lemma executed_emit_all: "executed (emit_all pf rid evs s) = executed s"
  by (induction pf rid evs s rule: emit_all.induct) (simp_all add: executed_emit)

lemma executed_run_operation:
  "run_operation pf rid o1 s = (None, s') \<Longrightarrow> executed s' = insert (name o1) (executed s)"
  by (auto simp: run_operation_def Let_def executed_emit executed_emit_all
      split: option.splits op_failure.splits)

lemma executed_run_batch:
  "run_batch pf rid batch s = (None, s') \<Longrightarrow> executed s' = executed s \<union> name ` set batch"
proof (induction batch arbitrary: s)
  case Nil
  then show ?case by simp
next
  case (Cons o1 batch)
  then show ?case
    by (auto split: prod.splits option.splits dest!: executed_run_operation)
qed

lemma find_ready_from_subset:
  "find_ready_from ops ex rest = Inr ready \<Longrightarrow>
     set ready \<subseteq> {o1. o1 \<in> set (present rest) \<and> name o1 \<notin> ex}"
proof (induction rest arbitrary: ready)
  case Nil
  then show ?case by simp
next
  case (Cons a rest)
  show ?case
  proof (cases a)
    case None
    with Cons.prems show ?thesis by simp
  next
    case (Some o1)
    with Cons show ?thesis
      by (auto split: if_splits sum.splits)
  qed
qed

lemma remaining_decreases:
  assumes "o1 \<in> set (present ops)" and "name o1 \<notin> ex"
  shows "length (remaining ops (ex \<union> insert (name o1) X)) < length (remaining ops ex)"
proof -
  have eq: "remaining ops (ex \<union> insert (name o1) X)
              = filter (\<lambda>n. n \<notin> insert (name o1) X) (remaining ops ex)"
    by (auto simp: remaining_def intro!: filter_cong)
  have mem: "name o1 \<in> set (remaining ops ex)"
    using assms by (auto simp: remaining_def)
  show ?thesis
    unfolding eq by (rule length_filter_less [OF mem]) simp
qed

lemma scheduler_progress:
  assumes fr: "find_ready_operations ops (executed s) = Inr ready"
    and ne: "ready \<noteq> []"
    and rb: "run_batch pf rid ready s = (None, s')"
  shows "length (remaining ops (executed s')) < length (remaining ops (executed s))"
proof -
  from ne obtain o1 rest where ready: "ready = o1 # rest"
    by (cases ready) auto
  from fr ready have o1: "o1 \<in> set (present ops)" "name o1 \<notin> executed s"
    using find_ready_from_subset [of ops "executed s" ops ready]
    by (auto simp: find_ready_operations_def)
  from rb have "executed s' = executed s \<union> insert (name o1) (name ` set rest)"
    using executed_run_batch [of pf rid ready s s'] by (simp add: ready)
  with remaining_decreases [OF o1] show ?thesis
    by simp
qed

text \<open>The \<^verbatim>\<open>while\<close> loop of \<^verbatim>\<open>execute\<close>.  An iteration either ends the loop (nothing
  ready, or an exception) or adds the name of every ready operator to \<^verbatim>\<open>executed\<close>, so
  the number of names of the plan outside \<^verbatim>\<open>executed\<close> decreases.\<close>

function scheduler_loop ::
  "(event \<Rightarrow> bool) \<Rightarrow> string option \<Rightarrow> operation option list \<Rightarrow> exec_state \<Rightarrow> exn option \<times> exec_state" where
  "scheduler_loop pf rid ops s =
     (if card (executed s) < length ops then
        (case find_ready_operations ops (executed s) of
           Inl e \<Rightarrow> (Some e, s)
         | Inr ready \<Rightarrow>
             if ready = [] then
               (None, if card (executed s) < length ops
                      then s\<lparr>warnings := warnings s @ [remaining ops (executed s)]\<rparr>
                      else s)
             else
               (case run_batch pf rid ready s of
                  (Some e, s') \<Rightarrow> (Some e, s')
                | (None, s') \<Rightarrow> scheduler_loop pf rid ops s'))
      else (None, s))"
  by pat_completeness auto
termination
proof (relation "measure (\<lambda>(pf, rid, ops, s). length (remaining ops (executed s)))", goal_cases)
  case 1
  show ?case by simp
next
  case (2 pf rid ops s ready x s')
  then show ?case
    using scheduler_progress [of ops s ready pf rid s'] by simp
qed

declare scheduler_loop.simps [simp del]

section \<open>The executor\<close>

definition initialize_context :: "search_config \<Rightarrow> execution_context" where
  "initialize_context config =
     \<lparr>context_query = query config, collection_slug = None, request_id = None,
      streaming_required = None, timings = [], errors = [], raw_results = None,
      final_results = None, execution_summary = None\<rparr>"

text \<open>The statements after the loop on the path without exception: finalization, then
  the \<^verbatim>\<open>results\<close> and \<^verbatim>\<open>summary\<close> events.\<close>

definition finish :: "env \<Rightarrow> string option \<Rightarrow> exec_state \<Rightarrow> exec_state" where
  "finish en rid s =
     (let s1 = s\<lparr>cxt := finalize_context (cxt s)\<rparr>;
          s2 = emit (publish_fails en) rid ''results''
                 (ResultsData (case final_results (cxt s1) of None \<Rightarrow> [] | Some f \<Rightarrow> f))
                 None s1
      in emit (publish_fails en) rid ''summary''
           (SummaryData (timings (cxt s2)) (errors (cxt s2)) (total_time en)) None s2)"

text \<open>The arguments of the call \<^verbatim>\<open>analytics.track_event\<close> in the \<^verbatim>\<open>finally\<close> block.
  \<^verbatim>\<open>results_count\<close> is set under \<^verbatim>\<open>if final_results:\<close>.\<close>

definition analytics_call_of ::
  "env \<Rightarrow> api_context \<Rightarrow> string option \<Rightarrow> execution_context \<Rightarrow> analytics_call" where
  "analytics_call_of en ctx rid c =
     \<lparr>event_name = ''search_query'',
      distinct_id = (case user_id ctx of
                       Some u \<Rightarrow> u
                     | None \<Rightarrow> ''api_key_'' @ organization_id ctx),
      properties =
        \<lparr>query_length = length (context_query c),
         prop_collection_slug = (case collection_slug c of None \<Rightarrow> [] | Some x \<Rightarrow> x),
         duration_ms = search_duration_ms en,
         search_type = (if truthy rid then ''streaming'' else ''regular''),
         prop_organization_name =
           (case organization_name ctx of None \<Rightarrow> ''unknown'' | Some x \<Rightarrow> x),
         status = ''success'',
         results_count =
           (case final_results c of
              None \<Rightarrow> None
            | Some f \<Rightarrow> if f \<noteq> [] then Some (length f) else None)\<rparr>,
      groups = [(''organization'', organization_id ctx)]\<rparr>"

text \<open>
  Modelled from the spec: \<^verbatim>\<open>analytics.track_event\<close>, of the module
  \<^verbatim>\<open>airweave.analytics.service\<close>, which the executor imports and which is not among the
  sources.  The spec on it: ``Analytics errors: sink failure.  Silently dropped; never
  affects the user-visible result'', and ``a single \<^verbatim>\<open>search_query\<close> event per request''.
  So a call records the event unless the sink fails, and returns in both cases.  The
  result has the exception of the call for the caller, which is never set.
\<close>

definition track_event ::
  "bool \<Rightarrow> analytics_call \<Rightarrow> analytics_call list \<Rightarrow> exn option \<times> analytics_call list" where
  "track_event failing call rec = (None, if failing then rec else rec @ [call])"

text \<open>\<^verbatim>\<open>execute\<close>.  The \<^verbatim>\<open>finally\<close> block runs on every path out of the \<^verbatim>\<open>try\<close>.  The
  call of \<^verbatim>\<open>track_event\<close> in it is not guarded: an exception of that call would leave
  the block before \<^verbatim>\<open>done\<close> is emitted and replace the exception in flight.  The result
  records the exception that reaches the caller (\<open>None\<close>: \<^verbatim>\<open>return context\<close>) and the
  final state, whose \<open>cxt\<close> is the context returned.\<close>

definition execute ::
  "env \<Rightarrow> search_config \<Rightarrow> api_context \<Rightarrow> string option \<Rightarrow> run_result" where
  "execute en config ctx rid =
     (let operations = extract_operations_from_config config;
          context0 = initialize_context config;
          context1 = (if truthy rid
                      then context0\<lparr>request_id := rid, streaming_required := Some True\<rparr>
                      else context0);
          s0 = \<lparr>cxt = context1, executed = {}, global_sequence = 0,
                op_sequences = Map.empty, emitted = [], published = [], warnings = [],
                invoked = [], tracked = [], recorded = []\<rparr>;
          s1 = emit (publish_fails en) rid ''start''
                 (StartData rid (query config) (limit config) (offset config)) None s0;
          (x, s2) = scheduler_loop (publish_fails en) rid operations s1;
          s3 = (case x of Some e \<Rightarrow> s2 | None \<Rightarrow> finish en rid s2);
          call = analytics_call_of en ctx rid (cxt s3);
          (xt, rec) = track_event (sink_fails en) call (recorded s3);
          s4 = s3\<lparr>tracked := tracked s3 @ [call], recorded := rec\<rparr>
      in case xt of
           Some e \<Rightarrow> \<lparr>raised = Some e, final = s4\<rparr>
         | None \<Rightarrow>
             \<lparr>raised = x, final = emit (publish_fails en) rid ''done'' (DoneData rid) None s4\<rparr>)"

section \<open>Concrete inputs\<close>

text \<open>Operators and configurations on which the theorems below are instantiated.
  \<open>keep_effect\<close> is an operator call that leaves the result keys as they are, publishes
  nothing, takes one millisecond and returns.\<close>

definition keep_effect :: "execution_context \<Rightarrow> op_effect" where
  "keep_effect c =
     \<lparr>new_collection_slug = collection_slug c, new_raw_results = raw_results c,
      new_final_results = final_results c, own_events = [], elapsed_ms = 1,
      failure = None\<rparr>"

definition ok_op :: "string \<Rightarrow> string list \<Rightarrow> operation" where
  "ok_op n ds = \<lparr>name = n, depends_on = ds, run = keep_effect\<rparr>"

definition plan_d :: "operation list" where
  "plan_d = [ok_op ''query_expansion'' [],
             ok_op ''qdrant_filter'' [''query_interpretation'', ''query_expansion''],
             ok_op ''embedding'' [''query_expansion''],
             ok_op ''vector_search'' [''embedding'', ''qdrant_filter'']]"

definition failing_op :: "string \<Rightarrow> string list \<Rightarrow> string \<Rightarrow> operation" where
  "failing_op n ds msg =
     \<lparr>name = n, depends_on = ds,
      run = (\<lambda>c. (keep_effect c)\<lparr>failure := Some (RaisedException msg)\<rparr>)\<rparr>"

definition cancelled_op :: "string \<Rightarrow> string list \<Rightarrow> operation" where
  "cancelled_op n ds =
     \<lparr>name = n, depends_on = ds,
      run = (\<lambda>c. (keep_effect c)\<lparr>failure := Some (RaisedBaseException ''CancelledError'')\<rparr>)\<rparr>"

definition chatty_op :: "string \<Rightarrow> string list \<Rightarrow> operation" where
  "chatty_op n ds =
     \<lparr>name = n, depends_on = ds,
      run = (\<lambda>c. (keep_effect c)\<lparr>own_events := [(''embedding_done'', ''{}'', Some n)]\<rparr>)\<rparr>"

definition search_op :: "string \<Rightarrow> string list \<Rightarrow> doc list \<Rightarrow> operation" where
  "search_op n ds r =
     \<lparr>name = n, depends_on = ds, run = (\<lambda>c. (keep_effect c)\<lparr>new_raw_results := Some r\<rparr>)\<rparr>"

definition config0 :: "operation option \<Rightarrow> operation option \<Rightarrow> search_config" where
  "config0 e v =
     \<lparr>query = ''hello'', limit = 10, offset = 0, query_expansion = None,
      query_interpretation = None, qdrant_filter = None, embedding = e, vector_search = v,
      recency = None, reranking = None, completion = None\<rparr>"

definition env0 :: env where
  "env0 = \<lparr>publish_fails = (\<lambda>e. False), sink_fails = False, total_time = 5,
            search_duration_ms = 6\<rparr>"

definition ctx0 :: api_context where
  "ctx0 = \<lparr>user_id = Some ''u1'', organization_id = ''org1'',
            organization_name = Some ''Acme''\<rparr>"

definition config_a :: search_config where
  "config_a = config0 (Some (ok_op ''embedding'' []))
                (Some (search_op ''vector_search'' [''embedding''] [Doc 1, Doc 2]))"

definition config_empty :: search_config where
  "config_empty = config0 (Some (ok_op ''embedding'' []))
                    (Some (search_op ''vector_search'' [''embedding''] []))"

definition config_missing :: search_config where
  "config_missing = config0 None (Some (ok_op ''vector_search'' []))"

definition env_drop_first :: env where
  "env_drop_first = env0\<lparr>publish_fails := (\<lambda>e. seq e = 1)\<rparr>"

definition env_sink_fails :: env where
  "env_sink_fails = env0\<lparr>sink_fails := True\<rparr>"

definition config_cancel :: search_config where
  "config_cancel = config0 (Some (chatty_op ''embedding'' []))
                     (Some (cancelled_op ''vector_search'' [''embedding'']))"

definition config_fail :: search_config where
  "config_fail = config0 (Some (ok_op ''embedding'' []))
                   (Some (failing_op ''vector_search'' [''embedding''] ''boom''))"

definition config_cycle :: search_config where
  "config_cycle = config0 (Some (failing_op ''A'' [''B''] ''boom''))
                    (Some (cancelled_op ''B'' [''A'']))"

lemmas eval_defs =
  execute_def extract_operations_from_config_def slot_def initialize_context_def truthy_def
  emit_def Let_def find_ready_operations_def run_operation_def apply_effect_def finish_def
  finalize_context_def py_sum_def analytics_call_of_def track_event_def remaining_def
  scheduler_loop.simps keep_effect_def ok_op_def failing_op_def cancelled_op_def
  chatty_op_def search_op_def config0_def env0_def ctx0_def

text \<open>The state of \<^verbatim>\<open>execute\<close> when the \<^verbatim>\<open>try\<close> block is entered: the context
  initialised, the request id attached, \<^verbatim>\<open>start\<close> emitted.\<close>

definition start_state :: "env \<Rightarrow> search_config \<Rightarrow> string option \<Rightarrow> exec_state" where
  "start_state en config rid =
     emit (publish_fails en) rid ''start''
       (StartData rid (query config) (limit config) (offset config)) None
       \<lparr>cxt = (if truthy rid
               then (initialize_context config)\<lparr>request_id := rid,
                                                 streaming_required := Some True\<rparr>
               else initialize_context config),
        executed = {}, global_sequence = 0, op_sequences = Map.empty, emitted = [],
        published = [], warnings = [], invoked = [], tracked = [], recorded = []\<rparr>"

section \<open>Predicates on states and traces\<close>

text \<open>Predicates used as loop invariants.  \<open>stream_ok\<close>: the events handed to the
  publisher are numbered 1, 2, ... up to the global counter, the events published are
  those on which the publisher did not raise, and a streaming run has \<^verbatim>\<open>start\<close> first.
  \<open>clean_run\<close>: every operator call so far has returned.  \<open>failed_run\<close>: the last
  operator call has not returned, all calls before it have, and the handler has run
  exactly when the exception is of class \<^verbatim>\<open>Exception\<close>.\<close>

definition stream_ok :: "(event \<Rightarrow> bool) \<Rightarrow> string option \<Rightarrow> exec_state \<Rightarrow> bool" where
  "stream_ok pf rid s =
     (map seq (emitted s) = [1..<Suc (global_sequence s)] \<and>
      published s = filter (\<lambda>e. \<not> pf e) (emitted s) \<and>
      (truthy rid \<longrightarrow> emitted s \<noteq> [] \<and> etype (hd (emitted s)) = ''start''))"

definition clean_run :: "exec_state \<Rightarrow> bool" where
  "clean_run s =
     ((\<forall>p\<in>set (invoked s). failure (snd p) = None) \<and> errors (cxt s) = [] \<and>
      execution_summary (cxt s) = None)"

definition failed_run :: "string option \<Rightarrow> exn \<Rightarrow> exec_state \<Rightarrow> bool" where
  "failed_run rid e s =
     (invoked s \<noteq> [] \<and>
      (\<forall>p\<in>set (butlast (invoked s)). failure (snd p) = None) \<and>
      execution_summary (cxt s) = None \<and>
      (case failure (snd (last (invoked s))) of
         None \<Rightarrow> False
       | Some (RaisedException msg) \<Rightarrow>
           e = OperatorError msg \<and>
           errors (cxt s) = [(fst (last (invoked s)), msg)] \<and>
           (truthy rid \<longrightarrow>
              emitted s \<noteq> [] \<and> etype (last (emitted s)) = ''error'' \<and>
              op (last (emitted s)) = Some (fst (last (invoked s))) \<and>
              payload (last (emitted s)) = ErrorData (fst (last (invoked s))) msg)
       | Some (RaisedBaseException cls) \<Rightarrow>
           e = OperatorAbort cls \<and> errors (cxt s) = []))"

text \<open>The type and the \<^verbatim>\<open>op\<close> name of an event, and the events that go with one operator
  call of the trace: \<^verbatim>\<open>operator_start\<close> from the executor, the events the operator
  published itself, and then \<^verbatim>\<open>operator_end\<close> from the executor when the call returned,
  \<^verbatim>\<open>error\<close> when it raised an exception of class \<^verbatim>\<open>Exception\<close>, nothing when it was
  ended by another exception.\<close>

definition shape :: "event \<Rightarrow> string \<times> string option" where
  "shape e = (etype e, op e)"

definition call_events :: "string \<times> op_effect \<Rightarrow> (string \<times> string option) list" where
  "call_events c =
     (''operator_start'', Some (fst c))
     # map (\<lambda>(t, d, n). (t, n)) (own_events (snd c))
     @ (case failure (snd c) of
          None \<Rightarrow> [(''operator_end'', Some (fst c))]
        | Some (RaisedException msg) \<Rightarrow> [(''error'', Some (fst c))]
        | Some (RaisedBaseException cls) \<Rightarrow> [])"

text \<open>\<open>shaped\<close>: the stream so far is \<^verbatim>\<open>start\<close> and the events of the calls of the
  trace.  \<open>timed_run\<close>: the keys of \<^verbatim>\<open>timings\<close> are the names of the operators called,
  in the order of the calls; they are distinct, they are the set \<^verbatim>\<open>executed\<close>, and they
  are names of the plan.  \<open>last_results\<close>: \<^verbatim>\<open>raw_results\<close> and \<^verbatim>\<open>final_results\<close> are
  as the last operator call left them, and missing before the first call.\<close>

definition shaped :: "string option \<Rightarrow> exec_state \<Rightarrow> bool" where
  "shaped rid s =
     (map shape (emitted s)
        = (if truthy rid then (''start'', None) # concat (map call_events (invoked s))
           else []))"

definition timed_run :: "operation option list \<Rightarrow> exec_state \<Rightarrow> bool" where
  "timed_run ops s =
     (map fst (timings (cxt s)) = map fst (invoked s) \<and>
      set (map fst (invoked s)) = executed s \<and>
      distinct (map fst (invoked s)) \<and>
      errors (cxt s) = [] \<and>
      executed s \<subseteq> name ` set (present ops))"

definition last_results :: "exec_state \<Rightarrow> bool" where
  "last_results s =
     (raw_results (cxt s)
        = (if invoked s = [] then None else new_raw_results (snd (last (invoked s)))) \<and>
      final_results (cxt s)
        = (if invoked s = [] then None else new_final_results (snd (last (invoked s)))))"

section \<open>The scheduler returns the ready operators\<close>

lemma operation_exists_error: "operation_exists ops d = Inl e \<Longrightarrow> e = AttributeError"
  by (induction ops d rule: operation_exists.induct) (auto split: if_splits)

lemma deps_satisfied_error: "deps_satisfied ops ex ds = Inl e \<Longrightarrow> e = AttributeError"
  by (induction ds) (auto split: if_splits sum.splits bool.splits dest: operation_exists_error)

lemma find_ready_from_error: "find_ready_from ops ex rest = Inl e \<Longrightarrow> e = AttributeError"
  by (induction ops ex rest rule: find_ready_from.induct)
    (auto split: if_splits sum.splits dest: deps_satisfied_error)

lemma find_ready_from_None:
  "None \<in> set rest \<Longrightarrow> find_ready_from ops ex rest = Inl AttributeError"
proof (induction ops ex rest rule: find_ready_from.induct)
  case (3 ops ex o1 rest)
  then show ?case
    by (auto split: sum.splits dest: deps_satisfied_error)
qed auto

lemma operation_exists_present:
  "None \<notin> set ops \<Longrightarrow> operation_exists ops d = Inr (d \<in> name ` set (present ops))"
  by (induction ops d rule: operation_exists.induct) auto

lemma deps_satisfied_present:
  "None \<notin> set ops \<Longrightarrow>
     deps_satisfied ops ex ds
       = Inr (\<forall>d\<in>set ds. d \<in> ex \<or> d \<notin> name ` set (present ops))"
  by (induction ds) (auto simp: operation_exists_present split: bool.splits)

lemma find_ready_from_present:
  "None \<notin> set ops \<Longrightarrow> None \<notin> set rest \<Longrightarrow>
     find_ready_from ops ex rest
       = Inr (filter (\<lambda>o1. name o1 \<notin> ex \<and>
                 (\<forall>d\<in>set (depends_on o1). d \<in> ex \<or> d \<notin> name ` set (present ops)))
               (present rest))"
proof (induction rest)
  case Nil
  then show ?case by simp
next
  case (Cons a rest)
  then show ?case
    by (cases a) (auto simp: deps_satisfied_present)
qed

lemma present_map_Some: "present (map Some ops) = ops"
  by (induction ops) auto

text \<open>
  C5.  On a plan whose entries are all operators and for every set of executed names,
  \<^verbatim>\<open>_find_ready_operations\<close> returns, in plan order, exactly the operators that are not
  executed and whose every dependency is executed or is not the name of an operator of
  the plan.  In particular an operator that is not executed and whose dependencies name
  no operator of the plan is in the list returned.
\<close>

theorem find_ready_operations_spec:
  "find_ready_operations (map Some ops) ex
     = Inr (filter (\<lambda>o1. name o1 \<notin> ex \<and>
               (\<forall>d\<in>set (depends_on o1). d \<in> ex \<or> d \<notin> name ` set ops)) ops)
   \<and> (\<forall>o1\<in>set ops. \<forall>ready.
         name o1 \<notin> ex \<and> set (depends_on o1) \<inter> name ` set ops = {} \<and>
         find_ready_operations (map Some ops) ex = Inr ready \<longrightarrow> o1 \<in> set ready)"
proof -
  have "None \<notin> set (map Some ops)"
    by auto
  then have eq: "find_ready_operations (map Some ops) ex
     = Inr (filter (\<lambda>o1. name o1 \<notin> ex \<and>
               (\<forall>d\<in>set (depends_on o1). d \<in> ex \<or> d \<notin> name ` set ops)) ops)"
    unfolding find_ready_operations_def
    by (simp add: find_ready_from_present present_map_Some)
  show ?thesis
    unfolding eq by auto
qed

theorem find_ready_operations_spec_witness:
  "find_ready_operations (map Some plan_d) {''query_expansion''}
     = Inr [ok_op ''qdrant_filter'' [''query_interpretation'', ''query_expansion''],
            ok_op ''embedding'' [''query_expansion'']]
   \<and> find_ready_operations (map Some plan_d) {} = Inr [ok_op ''query_expansion'' []]"
  using find_ready_operations_spec [of plan_d "{''query_expansion''}"]
    find_ready_operations_spec [of plan_d "{}"]
  by (simp add: plan_d_def ok_op_def)

section \<open>Invariants of the loop\<close>

lemma find_ready_operations_Inr:
  assumes "find_ready_operations ops ex = Inr ready"
  shows "None \<notin> set ops"
    and "ready = filter (\<lambda>o1. name o1 \<notin> ex \<and>
                    (\<forall>d\<in>set (depends_on o1). d \<in> ex \<or> d \<notin> name ` set (present ops)))
                  (present ops)"
proof -
  show nn: "None \<notin> set ops"
    using assms find_ready_from_None [of ops ops ex]
    by (auto simp: find_ready_operations_def)
  show "ready = filter (\<lambda>o1. name o1 \<notin> ex \<and>
                    (\<forall>d\<in>set (depends_on o1). d \<in> ex \<or> d \<notin> name ` set (present ops)))
                  (present ops)"
    using assms find_ready_from_present [OF nn nn, of ex]
    by (simp add: find_ready_operations_def)
qed

lemma find_ready_operations_Inl:
  "find_ready_operations ops ex = Inl e \<Longrightarrow> e = AttributeError"
  by (simp add: find_ready_operations_def find_ready_from_error)

subsection \<open>The emitter\<close>

lemma emit_off: "\<not> truthy rid \<Longrightarrow> emit pf rid t d n s = s"
  by (simp add: emit_def)

lemma emit_fields:
  "cxt (emit pf rid t d n s) = cxt s"
  "invoked (emit pf rid t d n s) = invoked s"
  "warnings (emit pf rid t d n s) = warnings s"
  "tracked (emit pf rid t d n s) = tracked s"
  "recorded (emit pf rid t d n s) = recorded s"
  by (simp_all add: emit_def Let_def split: option.splits prod.splits)

lemma emit_all_off: "\<not> truthy rid \<Longrightarrow> emit_all pf rid evs s = s"
  by (induction pf rid evs s rule: emit_all.induct) (simp_all add: emit_off)

lemma emit_all_fields:
  "cxt (emit_all pf rid evs s) = cxt s"
  "invoked (emit_all pf rid evs s) = invoked s"
  "warnings (emit_all pf rid evs s) = warnings s"
  "tracked (emit_all pf rid evs s) = tracked s"
  "recorded (emit_all pf rid evs s) = recorded s"
  by (induction pf rid evs s rule: emit_all.induct) (simp_all add: emit_fields)

lemma global_sequence_emit:
  "truthy rid \<Longrightarrow> global_sequence (emit pf rid t d n s) = Suc (global_sequence s)"
  by (simp add: emit_def Let_def split: option.splits prod.splits)

lemma emitted_emit:
  "truthy rid \<Longrightarrow>
     \<exists>k. emitted (emit pf rid t d n s)
            = emitted s @ [\<lparr>etype = t, seq = Suc (global_sequence s), op = n, op_seq = k,
                             payload = d\<rparr>]"
  by (simp add: emit_def Let_def split: option.splits prod.splits)

lemma published_emit:
  "published s = filter (\<lambda>e. \<not> pf e) (emitted s) \<Longrightarrow>
     published (emit pf rid t d n s) = filter (\<lambda>e. \<not> pf e) (emitted (emit pf rid t d n s))"
  by (simp add: emit_def Let_def split: option.splits prod.splits)

subsection \<open>Rules for the loop\<close>

lemma run_batch_rule:
  assumes inv: "I s"
    and fresh: "D \<longrightarrow> distinct (map name batch) \<and> (\<forall>o1\<in>set batch. name o1 \<notin> executed s)"
    and ok: "\<And>o1 s s'. \<lbrakk>o1 \<in> set batch; I s; D \<longrightarrow> name o1 \<notin> executed s;
                run_operation pf rid o1 s = (None, s')\<rbrakk> \<Longrightarrow> I s'"
    and bad: "\<And>o1 s e s'. \<lbrakk>o1 \<in> set batch; I s; D \<longrightarrow> name o1 \<notin> executed s;
                run_operation pf rid o1 s = (Some e, s')\<rbrakk> \<Longrightarrow> Q e s'"
  shows "case run_batch pf rid batch s of (None, s') \<Rightarrow> I s' | (Some e, s') \<Rightarrow> Q e s'"
  using inv fresh ok bad
proof (induction batch arbitrary: s)
  case Nil
  then show ?case by simp
next
  case (Cons o1 batch)
  obtain x s1 where r: "run_operation pf rid o1 s = (x, s1)"
    by (cases "run_operation pf rid o1 s") auto
  have fr: "D \<longrightarrow> name o1 \<notin> executed s"
    using Cons.prems(2) by simp
  show ?case
  proof (cases x)
    case (Some e)
    with r Cons.prems(4) [of o1 s e s1] Cons.prems(1) fr show ?thesis
      by simp
  next
    case None
    with r have i1: "I s1"
      using Cons.prems(3) [of o1 s s1] Cons.prems(1) fr by simp
    from r None have ex: "executed s1 = insert (name o1) (executed s)"
      by (simp add: executed_run_operation)
    have fr1: "D \<longrightarrow> distinct (map name batch) \<and> (\<forall>o2\<in>set batch. name o2 \<notin> executed s1)"
      using Cons.prems(2) ex by (auto simp: image_iff)
    have "case run_batch pf rid batch s1 of (None, s') \<Rightarrow> I s' | (Some e, s') \<Rightarrow> Q e s'"
      by (rule Cons.IH [OF i1 fr1]) (auto intro: Cons.prems(3) Cons.prems(4))
    with r None show ?thesis
      by simp
  qed
qed

lemma scheduler_loop_rule:
  assumes inv: "I s"
    and ok: "\<And>o1 s s'. \<lbrakk>o1 \<in> set (present ops); I s;
                distinct (map name (present ops)) \<longrightarrow> name o1 \<notin> executed s;
                run_operation pf rid o1 s = (None, s')\<rbrakk> \<Longrightarrow> I s'"
    and bad: "\<And>o1 s e s'. \<lbrakk>o1 \<in> set (present ops); I s;
                distinct (map name (present ops)) \<longrightarrow> name o1 \<notin> executed s;
                run_operation pf rid o1 s = (Some e, s')\<rbrakk> \<Longrightarrow> Q e s'"
    and warn: "\<And>s w. I s \<Longrightarrow> I (s\<lparr>warnings := w\<rparr>)"
  shows "case scheduler_loop pf rid ops s of
           (None, s') \<Rightarrow> I s'
         | (Some e, s') \<Rightarrow> (e = AttributeError \<and> I s') \<or> Q e s'"
  using inv ok bad warn
proof (induction pf rid ops s rule: scheduler_loop.induct)
  case (1 pf rid ops s)
  let ?D = "distinct (map name (present ops))"
  note i0 = "1.prems"(1) and ok1 = "1.prems"(2) and bad1 = "1.prems"(3)
    and warn1 = "1.prems"(4)
  show ?case
  proof (cases "card (executed s) < length ops")
    case False
    with i0 show ?thesis
      by (subst scheduler_loop.simps) simp
  next
    case lt: True
    show ?thesis
    proof (cases "find_ready_operations ops (executed s)")
      case (Inl e)
      with lt i0 find_ready_operations_Inl [OF Inl] show ?thesis
        by (subst scheduler_loop.simps) simp
    next
      case (Inr ready)
      show ?thesis
      proof (cases "ready = []")
        case True
        with lt Inr warn1 [OF i0] show ?thesis
          by (subst scheduler_loop.simps) simp
      next
        case ne: False
        obtain x s1 where rb: "run_batch pf rid ready s = (x, s1)"
          by (cases "run_batch pf rid ready s") auto
        have sub: "set ready \<subseteq> set (present ops)"
          using find_ready_operations_Inr(2) [OF Inr] by auto
        have fresh: "?D \<longrightarrow> distinct (map name ready) \<and> (\<forall>o1\<in>set ready. name o1 \<notin> executed s)"
          using find_ready_operations_Inr(2) [OF Inr] by (auto simp: distinct_map_filter)
        have b: "case run_batch pf rid ready s of
                   (None, s') \<Rightarrow> I s' | (Some e, s') \<Rightarrow> Q e s'"
        proof (rule run_batch_rule [where D = ?D and I = I and s = s and batch = ready,
                OF i0 fresh])
          fix o1 t t'
          assume "o1 \<in> set ready" "I t" "?D \<longrightarrow> name o1 \<notin> executed t"
            "run_operation pf rid o1 t = (None, t')"
          then show "I t'"
            using ok1 [of o1 t t'] sub by blast
        next
          fix o1 t e t'
          assume "o1 \<in> set ready" "I t" "?D \<longrightarrow> name o1 \<notin> executed t"
            "run_operation pf rid o1 t = (Some e, t')"
          then show "Q e t'"
            using bad1 [of o1 t e t'] sub by blast
        qed
        show ?thesis
        proof (cases x)
          case (Some e)
          with b rb lt Inr ne show ?thesis
            by (subst scheduler_loop.simps) simp
        next
          case None
          with b rb have "I s1" by simp
          then have "case scheduler_loop pf rid ops s1 of
                       (None, s') \<Rightarrow> I s'
                     | (Some e, s') \<Rightarrow> (e = AttributeError \<and> I s') \<or> Q e s'"
            apply (rule "1.IH" [OF lt Inr ne rb [symmetric] None])
              apply (rule ok1; assumption)
             apply (rule bad1; assumption)
            apply (rule warn1; assumption)
            done
          with rb None lt Inr ne show ?thesis
            by (subst scheduler_loop.simps) simp
        qed
      qed
    qed
  qed
qed

section \<open>The analytics call\<close>

lemma execute_unfold:
  assumes "scheduler_loop (publish_fails en) rid (extract_operations_from_config config)
             (start_state en config rid) = (x, s2)"
  shows "execute en config ctx rid =
     (let s3 = (case x of Some e \<Rightarrow> s2 | None \<Rightarrow> finish en rid s2);
          call = analytics_call_of en ctx rid (cxt s3);
          s4 = s3\<lparr>tracked := tracked s3 @ [call],
                  recorded := (if sink_fails en then recorded s3 else recorded s3 @ [call])\<rparr>
      in \<lparr>raised = x, final = emit (publish_fails en) rid ''done'' (DoneData rid) None s4\<rparr>)"
  using assms by (simp add: execute_def start_state_def Let_def track_event_def)

lemma start_state_fields:
  "executed (start_state en config rid) = {}"
  "invoked (start_state en config rid) = []"
  "warnings (start_state en config rid) = []"
  "tracked (start_state en config rid) = []"
  "recorded (start_state en config rid) = []"
  "timings (cxt (start_state en config rid)) = []"
  "errors (cxt (start_state en config rid)) = []"
  "raw_results (cxt (start_state en config rid)) = None"
  "final_results (cxt (start_state en config rid)) = None"
  by (simp_all add: start_state_def emit_fields executed_emit initialize_context_def)

lemma finish_fields:
  "cxt (finish en rid s) = finalize_context (cxt s)"
  "invoked (finish en rid s) = invoked s"
  "warnings (finish en rid s) = warnings s"
  "tracked (finish en rid s) = tracked s"
  "recorded (finish en rid s) = recorded s"
  "executed (finish en rid s) = executed s"
  by (simp_all add: finish_def Let_def emit_fields executed_emit)

lemma run_operation_tracked:
  "run_operation pf rid o1 s = (x, s') \<Longrightarrow> tracked s' = tracked s"
  by (auto simp: run_operation_def Let_def emit_fields emit_all_fields
      split: option.splits op_failure.splits)

lemma scheduler_loop_tracked:
  assumes "scheduler_loop pf rid ops s = (x, s')"
  shows "tracked s' = tracked s"
proof -
  have "case scheduler_loop pf rid ops s of
          (None, s') \<Rightarrow> tracked s' = tracked s
        | (Some e, s') \<Rightarrow> (e = AttributeError \<and> tracked s' = tracked s) \<or> tracked s' = tracked s"
    by (rule scheduler_loop_rule [where I = "\<lambda>t. tracked t = tracked s"
          and Q = "\<lambda>e t. tracked t = tracked s"])
      (auto dest: run_operation_tracked)
  with assms show ?thesis
    by (auto split: option.splits)
qed

lemma execute_tracked:
  "tracked (final (execute en config ctx rid))
     = [analytics_call_of en ctx rid (cxt (final (execute en config ctx rid)))]"
proof -
  obtain x s2 where l: "scheduler_loop (publish_fails en) rid
      (extract_operations_from_config config) (start_state en config rid) = (x, s2)"
    by (cases "scheduler_loop (publish_fails en) rid
      (extract_operations_from_config config) (start_state en config rid)") auto
  have "tracked s2 = []"
    using scheduler_loop_tracked [OF l] by (simp add: start_state_fields)
  then show ?thesis
    by (simp add: execute_unfold [OF l] Let_def emit_fields finish_fields split: option.splits)
qed

text \<open>
  C8.  Every call of \<^verbatim>\<open>execute\<close> makes exactly one call of
  \<^verbatim>\<open>analytics.track_event\<close>, with the event name \<^verbatim>\<open>search_query\<close>, whether the
  pipeline succeeded or an operator raised; the call is part of the effects of
  \<^verbatim>\<open>execute\<close>, made before control is back at the caller.
\<close>

theorem analytics_exactly_once:
  "map event_name (tracked (final (execute en config ctx rid))) = [''search_query'']"
  by (simp add: execute_tracked analytics_call_of_def)

theorem analytics_exactly_once_witness:
  "map event_name (tracked (final (execute env0 config_a ctx0 None))) = [''search_query'']
   \<and> map event_name
        (tracked (final (execute env0
           (config0 (Some (ok_op ''embedding'' []))
              (Some (failing_op ''vector_search'' [] ''boom''))) ctx0 (Some ''r1''))))
       = [''search_query'']"
  using analytics_exactly_once [of env0 config_a ctx0 None]
    analytics_exactly_once [of env0 "config0 (Some (ok_op ''embedding'' []))
              (Some (failing_op ''vector_search'' [] ''boom''))" ctx0 "Some ''r1''"]
  by simp

lemma eval_a:
  "final_results (cxt (final (execute env0 config_a ctx0 None))) = Some [Doc 1, Doc 2]"
  by (simp add: config_a_def eval_defs)

lemma eval_empty:
  "final_results (cxt (final (execute env0 config_empty ctx0 None))) = Some []"
  "raised (execute env0 config_empty ctx0 None) = None"
  by (simp_all add: config_empty_def eval_defs)

text \<open>
  C10.  In the properties of the analytics call, \<^verbatim>\<open>results_count\<close> is present exactly
  when \<^verbatim>\<open>final_results\<close> is in the final context and is not empty, and then it is its
  length; a run that ends with an empty \<^verbatim>\<open>final_results\<close> has no \<^verbatim>\<open>results_count\<close>.
\<close>

theorem results_count_iff_nonempty:
  "map (\<lambda>call. results_count (properties call)) (tracked (final (execute en config ctx rid)))
     = [case final_results (cxt (final (execute en config ctx rid))) of
          None \<Rightarrow> None
        | Some f \<Rightarrow> if f = [] then None else Some (length f)]"
  by (simp add: execute_tracked analytics_call_of_def split: option.splits)

theorem results_count_iff_nonempty_witness:
  "map (\<lambda>call. results_count (properties call))
      (tracked (final (execute env0 config_a ctx0 None))) = [Some 2]
   \<and> map (\<lambda>call. results_count (properties call))
      (tracked (final (execute env0 config_empty ctx0 None))) = [None]
   \<and> raised (execute env0 config_empty ctx0 None) = None"
  using results_count_iff_nonempty [of env0 config_a ctx0 None]
    results_count_iff_nonempty [of env0 config_empty ctx0 None]
  by (simp add: eval_a eval_empty)

section \<open>What finalization guarantees\<close>

lemma py_sum_from: "foldl (+) a xs = a + sum_list (xs :: real list)"
  by (induction xs arbitrary: a) (auto simp: algebra_simps)

lemma py_sum_sum_list: "py_sum xs = sum_list xs"
  by (simp add: py_sum_def py_sum_from)

lemma finalize_context_frame:
  "timings (finalize_context c) = timings c"
  "errors (finalize_context c) = errors c"
  "raw_results (finalize_context c) = raw_results c"
  by (simp_all add: finalize_context_def Let_def split: option.splits)

lemma eval_a_raised: "raised (execute env0 config_a ctx0 None) = None"
  by (simp add: config_a_def eval_defs)

text \<open>
  C7.  \<^verbatim>\<open>_finalize_context\<close> leaves \<^verbatim>\<open>final_results\<close> as it is when the key is there,
  sets it to \<^verbatim>\<open>raw_results\<close> when it is missing, and to the empty list when
  \<^verbatim>\<open>raw_results\<close> is missing too; it sets \<^verbatim>\<open>execution_summary\<close> to the number of
  entries of \<^verbatim>\<open>timings\<close>, the sum of its values and the length of \<^verbatim>\<open>errors\<close>.  When
  \<^verbatim>\<open>execute\<close> returns, the context returned is the finalization of the context with
  which the loop ended.
\<close>

theorem finalization_guarantees:
  "final_results (finalize_context c)
     = Some (case final_results c of
               Some f \<Rightarrow> f
             | None \<Rightarrow> (case raw_results c of Some r \<Rightarrow> r | None \<Rightarrow> []))
   \<and> execution_summary (finalize_context c)
     = Some \<lparr>operations_executed = length (timings c),
             total_time_ms = sum_list (map snd (timings c)),
             errors_count = length (errors c)\<rparr>
   \<and> (raised (execute en config ctx rid) = None \<longrightarrow>
        cxt (final (execute en config ctx rid))
          = finalize_context
              (cxt (snd (scheduler_loop (publish_fails en) rid
                           (extract_operations_from_config config)
                           (start_state en config rid)))))"
proof -
  obtain x s2 where l: "scheduler_loop (publish_fails en) rid
      (extract_operations_from_config config) (start_state en config rid) = (x, s2)"
    by (cases "scheduler_loop (publish_fails en) rid
      (extract_operations_from_config config) (start_state en config rid)") auto
  have "raised (execute en config ctx rid) = None \<longrightarrow>
        cxt (final (execute en config ctx rid)) = finalize_context (cxt s2)"
    by (simp add: execute_unfold [OF l] Let_def emit_fields finish_fields
        split: option.splits)
  then show ?thesis
    by (simp add: l finalize_context_def Let_def py_sum_sum_list split: option.splits)
qed

theorem finalization_guarantees_witness:
  "raised (execute env0 config_a ctx0 None) = None
   \<and> cxt (final (execute env0 config_a ctx0 None))
       = finalize_context
           (cxt (snd (scheduler_loop (publish_fails env0) None
                        (extract_operations_from_config config_a)
                        (start_state env0 config_a None))))
   \<and> final_results (finalize_context (initialize_context config_a)) = Some []"
  using finalization_guarantees [of "initialize_context config_a" env0 config_a ctx0 None]
  by (simp add: eval_a_raised initialize_context_def)

section \<open>A required operator is missing\<close>

lemma plan_has_None:
  "embedding config = None \<or> vector_search config = None \<Longrightarrow>
     None \<in> set (extract_operations_from_config config)"
  by (auto simp: extract_operations_from_config_def)

lemma plan_length: "0 < length (extract_operations_from_config config)"
  by (simp add: extract_operations_from_config_def)

lemma scheduler_loop_None_entry:
  "None \<in> set ops \<Longrightarrow> card (executed s) < length ops \<Longrightarrow>
     scheduler_loop pf rid ops s = (Some AttributeError, s)"
  by (subst scheduler_loop.simps) (simp add: find_ready_operations_def find_ready_from_None)

lemma emitted_start_state:
  "map etype (emitted (start_state en config rid)) = (if truthy rid then [''start''] else [])"
  by (simp add: start_state_def emit_def Let_def)

lemma emitted_start_state_off:
  "\<not> truthy rid \<Longrightarrow> emitted (start_state en config rid) = []"
  by (simp add: start_state_def emit_off)

lemma etypes_emit:
  "map etype (emitted (emit pf rid t d n s))
     = map etype (emitted s) @ (if truthy rid then [t] else [])"
  by (simp add: emit_def Let_def split: option.splits prod.splits)

text \<open>
  C4, as the code has it.  The planner does not check the required slots and does not
  raise: a missing \<^verbatim>\<open>embedding\<close> or \<^verbatim>\<open>vector_search\<close> is put in the plan as \<^verbatim>\<open>None\<close>.
  The first pass of the scheduler over the plan raises \<^verbatim>\<open>AttributeError\<close> inside the
  \<^verbatim>\<open>try\<close> block, and \<^verbatim>\<open>execute\<close> raises it.  No operator is called; a streaming run
  has emitted \<^verbatim>\<open>start\<close> before the exception and emits \<^verbatim>\<open>done\<close> after it, and these are
  all its events; the analytics call is made.
\<close>

theorem missing_required_operator:
  assumes "embedding config = None \<or> vector_search config = None"
  shows "None \<in> set (extract_operations_from_config config)
         \<and> raised (execute en config ctx rid) = Some AttributeError
         \<and> invoked (final (execute en config ctx rid)) = []
         \<and> map etype (emitted (final (execute en config ctx rid)))
             = (if truthy rid then [''start'', ''done''] else [])
         \<and> map event_name (tracked (final (execute en config ctx rid))) = [''search_query'']"
proof -
  have l: "scheduler_loop (publish_fails en) rid (extract_operations_from_config config)
             (start_state en config rid) = (Some AttributeError, start_state en config rid)"
    by (rule scheduler_loop_None_entry [OF plan_has_None [OF assms]])
      (use plan_length [of config] in \<open>simp add: start_state_fields\<close>)
  have "map event_name (tracked (final (execute en config ctx rid))) = [''search_query'']"
    by (simp add: execute_tracked analytics_call_of_def)
  then show ?thesis
    using plan_has_None [OF assms]
    by (simp add: execute_unfold [OF l] Let_def emit_fields start_state_fields
        etypes_emit emitted_start_state emitted_start_state_off emit_off)
qed

theorem missing_required_operator_witness:
  "(embedding config_missing = None \<or> vector_search config_missing = None)
   \<and> raised (execute env0 config_missing ctx0 (Some ''r1'')) = Some AttributeError
   \<and> invoked (final (execute env0 config_missing ctx0 (Some ''r1''))) = []
   \<and> map etype (emitted (final (execute env0 config_missing ctx0 (Some ''r1''))))
       = [''start'', ''done'']"
  using missing_required_operator [of config_missing env0 ctx0 "Some ''r1''"]
  by (simp add: config_missing_def config0_def truthy_def)

text \<open>The exception is not raised before \<^verbatim>\<open>start\<close>: with \<^verbatim>\<open>embedding\<close> missing and
  a request id, the events of the run are \<^verbatim>\<open>start\<close> and \<^verbatim>\<open>done\<close>.\<close>

theorem missing_required_operator_counterexample:
  "embedding config_missing = None
   \<and> raised (execute env0 config_missing ctx0 (Some ''r1'')) = Some AttributeError
   \<and> map etype (emitted (final (execute env0 config_missing ctx0 (Some ''r1''))))
       = [''start'', ''done'']"
  by (simp add: config_missing_def eval_defs)

section \<open>The event stream\<close>

lemma last_emit:
  assumes "truthy rid"
  shows "emitted (emit pf rid t d n s) \<noteq> []"
    and "etype (last (emitted (emit pf rid t d n s))) = t"
    and "op (last (emitted (emit pf rid t d n s))) = n"
    and "payload (last (emitted (emit pf rid t d n s))) = d"
    and "butlast (emitted (emit pf rid t d n s)) = emitted s"
  using emitted_emit [OF assms, of pf t d n s] by auto

lemma stream_ok_emit:
  assumes "stream_ok pf rid s" and "truthy rid \<longrightarrow> emitted s \<noteq> [] \<or> t = ''start''"
  shows "stream_ok pf rid (emit pf rid t d n s)"
proof (cases "truthy rid")
  case False
  with assms show ?thesis by (simp add: emit_off)
next
  case True
  obtain k where e: "emitted (emit pf rid t d n s)
      = emitted s @ [\<lparr>etype = t, seq = Suc (global_sequence s), op = n, op_seq = k,
                       payload = d\<rparr>]"
    using emitted_emit [OF True] by blast
  have "published (emit pf rid t d n s) = filter (\<lambda>e. \<not> pf e) (emitted (emit pf rid t d n s))"
    using assms(1) by (intro published_emit) (simp add: stream_ok_def)
  moreover have "map seq (emitted (emit pf rid t d n s))
                   = [1..<Suc (global_sequence (emit pf rid t d n s))]"
    using assms(1) by (simp add: e global_sequence_emit [OF True] stream_ok_def)
  moreover have "emitted (emit pf rid t d n s) \<noteq> []
      \<and> etype (hd (emitted (emit pf rid t d n s))) = ''start''"
    using assms True by (cases "emitted s") (auto simp: e stream_ok_def)
  ultimately show ?thesis
    by (simp add: stream_ok_def)
qed

lemma stream_ok_frame:
  "stream_ok pf rid (s\<lparr>cxt := c\<rparr>) = stream_ok pf rid s"
  "stream_ok pf rid (s\<lparr>invoked := i\<rparr>) = stream_ok pf rid s"
  "stream_ok pf rid (s\<lparr>executed := x\<rparr>) = stream_ok pf rid s"
  "stream_ok pf rid (s\<lparr>warnings := w\<rparr>) = stream_ok pf rid s"
  "stream_ok pf rid (s\<lparr>tracked := tr\<rparr>) = stream_ok pf rid s"
  "stream_ok pf rid (s\<lparr>recorded := rc\<rparr>) = stream_ok pf rid s"
  by (simp_all add: stream_ok_def)

lemma stream_ok_nonempty: "stream_ok pf rid s \<Longrightarrow> truthy rid \<longrightarrow> emitted s \<noteq> [] \<or> t = x"
  by (simp add: stream_ok_def)

lemma stream_ok_emit_all:
  assumes "stream_ok pf rid s" and "truthy rid \<longrightarrow> emitted s \<noteq> []"
  shows "stream_ok pf rid (emit_all pf rid evs s)
         \<and> (truthy rid \<longrightarrow> emitted (emit_all pf rid evs s) \<noteq> [])"
  using assms
proof (induction pf rid evs s rule: emit_all.induct)
  case (1 pf rid s)
  then show ?case by simp
next
  case (2 pf rid t d n evs s)
  have "stream_ok pf rid (emit pf rid t (OperatorData d) n s)"
    using "2.prems" by (intro stream_ok_emit) auto
  moreover have "truthy rid \<longrightarrow> emitted (emit pf rid t (OperatorData d) n s) \<noteq> []"
    by (simp add: last_emit)
  ultimately show ?case
    using "2.IH" by simp
qed

lemma stream_ok_run_operation:
  assumes "stream_ok pf rid s" and "run_operation pf rid o1 s = (x, s')"
  shows "stream_ok pf rid s'"
proof -
  let ?s1 = "emit pf rid ''operator_start'' (OperatorStartData (name o1)) (Some (name o1)) s"
  let ?s2 = "emit_all pf rid (own_events (run o1 (cxt ?s1))) ?s1"
  have 1: "stream_ok pf rid ?s1"
    using assms(1) by (intro stream_ok_emit stream_ok_nonempty)
  have 2: "stream_ok pf rid ?s2"
    using stream_ok_emit_all [OF 1, of "own_events (run o1 (cxt ?s1))"]
    by (simp add: last_emit)
  show ?thesis
    using assms(2) 2
    by (auto simp: run_operation_def Let_def stream_ok_frame
        split: option.splits op_failure.splits
        intro!: stream_ok_emit stream_ok_nonempty)
qed

lemma stream_ok_scheduler_loop:
  assumes "stream_ok pf rid s" and "scheduler_loop pf rid ops s = (x, s')"
  shows "stream_ok pf rid s'"
proof -
  have "case scheduler_loop pf rid ops s of
          (None, s') \<Rightarrow> stream_ok pf rid s'
        | (Some e, s') \<Rightarrow> (e = AttributeError \<and> stream_ok pf rid s') \<or> stream_ok pf rid s'"
    by (rule scheduler_loop_rule [where I = "stream_ok pf rid" and Q = "\<lambda>e. stream_ok pf rid"])
      (auto intro: assms(1) stream_ok_run_operation simp: stream_ok_frame)
  with assms(2) show ?thesis
    by (auto split: option.splits)
qed

lemma stream_ok_start_state: "stream_ok (publish_fails en) rid (start_state en config rid)"
  by (simp add: start_state_def stream_ok_def emit_def Let_def)

lemma stream_ok_finish:
  "stream_ok (publish_fails en) rid s \<Longrightarrow> stream_ok (publish_fails en) rid (finish en rid s)"
  by (auto simp: finish_def Let_def stream_ok_frame intro!: stream_ok_emit stream_ok_nonempty)

lemma stream_ok_length: "stream_ok pf rid s \<Longrightarrow> global_sequence s = length (emitted s)"
proof -
  assume "stream_ok pf rid s"
  then have "length (map seq (emitted s)) = length [1..<Suc (global_sequence s)]"
    by (simp only: stream_ok_def)
  then show ?thesis by simp
qed

section \<open>Sequence numbers of the stream\<close>

lemma stream_ok_final:
  "stream_ok (publish_fails en) rid (final (execute en config ctx rid))"
proof -
  let ?pf = "publish_fails en"
  obtain x s2 where l: "scheduler_loop ?pf rid
      (extract_operations_from_config config) (start_state en config rid) = (x, s2)"
    by (cases "scheduler_loop ?pf rid
      (extract_operations_from_config config) (start_state en config rid)") auto
  have 2: "stream_ok ?pf rid s2"
    by (rule stream_ok_scheduler_loop [OF stream_ok_start_state l])
  then show ?thesis
    by (auto simp: execute_unfold [OF l] Let_def stream_ok_frame split: option.splits
        intro!: stream_ok_emit stream_ok_nonempty stream_ok_finish)
qed

text \<open>
  C1, as the code has it.  In a run with a non-empty request id, the events handed to
  the publisher are numbered 1, 2, ... without gap, the first is \<^verbatim>\<open>start\<close> and the last
  is \<^verbatim>\<open>done\<close>.  The events published are those on which the publisher did not raise:
  they are all the events when no publication fails, and a subsequence otherwise, since
  the counter is incremented before the publication is tried and a failure of the
  publisher is swallowed.
\<close>

theorem event_stream_sequence:
  assumes "truthy rid"
  shows "map seq (emitted (final (execute en config ctx rid)))
           = [1..<Suc (length (emitted (final (execute en config ctx rid))))]
         \<and> emitted (final (execute en config ctx rid)) \<noteq> []
         \<and> etype (hd (emitted (final (execute en config ctx rid)))) = ''start''
         \<and> etype (last (emitted (final (execute en config ctx rid)))) = ''done''
         \<and> published (final (execute en config ctx rid))
             = filter (\<lambda>e. \<not> publish_fails en e) (emitted (final (execute en config ctx rid)))
         \<and> ((\<forall>e. \<not> publish_fails en e) \<longrightarrow>
               published (final (execute en config ctx rid))
                 = emitted (final (execute en config ctx rid)))"
proof -
  let ?pf = "publish_fails en"
  obtain x s2 where l: "scheduler_loop ?pf rid
      (extract_operations_from_config config) (start_state en config rid) = (x, s2)"
    by (cases "scheduler_loop ?pf rid
      (extract_operations_from_config config) (start_state en config rid)") auto
  have d: "etype (last (emitted (final (execute en config ctx rid)))) = ''done''"
    by (simp add: execute_unfold [OF l] Let_def last_emit [OF assms])
  note ok = stream_ok_final [of en rid config ctx]
  from ok stream_ok_length [OF ok] assms d show ?thesis
    by (simp add: stream_ok_def)
qed

theorem event_stream_sequence_witness:
  "truthy (Some ''r1'')
   \<and> map seq (emitted (final (execute env0 config_a ctx0 (Some ''r1''))))
       = [1..<Suc (length (emitted (final (execute env0 config_a ctx0 (Some ''r1'')))))]
   \<and> etype (hd (emitted (final (execute env0 config_a ctx0 (Some ''r1''))))) = ''start''
   \<and> etype (last (emitted (final (execute env0 config_a ctx0 (Some ''r1''))))) = ''done''
   \<and> published (final (execute env0 config_a ctx0 (Some ''r1'')))
       = emitted (final (execute env0 config_a ctx0 (Some ''r1'')))"
proof -
  have h: "truthy (Some ''r1'')"
    by (simp add: truthy_def)
  from event_stream_sequence [OF h, of env0 config_a ctx0] h show ?thesis
    by (simp add: env0_def)
qed

text \<open>With a publisher that raises on the first payload, the published events of a
  run with a request id begin with \<^verbatim>\<open>operator_start\<close> and their numbers begin at 2.\<close>

theorem event_stream_sequence_counterexample:
  "map etype (published (final (execute env_drop_first config_a ctx0 (Some ''r1''))))
     = [''operator_start'', ''operator_end'', ''operator_start'', ''operator_end'',
        ''results'', ''summary'', ''done'']
   \<and> map seq (published (final (execute env_drop_first config_a ctx0 (Some ''r1''))))
       = [2, 3, 4, 5, 6, 7, 8]"
  by (simp add: env_drop_first_def config_a_def eval_defs)

section \<open>The shape of the stream\<close>

lemma shape_emit:
  "map shape (emitted (emit pf rid t d n s))
     = map shape (emitted s) @ (if truthy rid then [(t, n)] else [])"
  by (simp add: shape_def emit_def Let_def split: option.splits prod.splits)

lemma shape_emit_all:
  "map shape (emitted (emit_all pf rid evs s))
     = map shape (emitted s) @ (if truthy rid then map (\<lambda>(t, d, n). (t, n)) evs else [])"
  by (induction pf rid evs s rule: emit_all.induct) (simp_all add: shape_emit)

lemma emitted_frame:
  "emitted (s\<lparr>cxt := c\<rparr>) = emitted s"
  "emitted (s\<lparr>invoked := i\<rparr>) = emitted s"
  "emitted (s\<lparr>executed := x\<rparr>) = emitted s"
  by simp_all

lemma shaped_frame: "shaped rid (s\<lparr>warnings := w\<rparr>) = shaped rid s"
  by (simp add: shaped_def)

lemma shaped_run_operation:
  assumes "shaped rid s" and "run_operation pf rid o1 s = (x, s')"
  shows "shaped rid s'"
proof -
  let ?eff = "run o1 (cxt s)"
  from assms(2) have i: "invoked s' = invoked s @ [(name o1, ?eff)]"
    by (auto simp: run_operation_def Let_def emit_fields emit_all_fields
        split: option.splits op_failure.splits)
  from assms(2) have e: "map shape (emitted s')
      = map shape (emitted s) @ (if truthy rid then call_events (name o1, ?eff) else [])"
    by (auto simp: run_operation_def Let_def emit_fields emit_all_fields shape_emit
        shape_emit_all call_events_def split: option.splits op_failure.splits)
  show ?thesis
    using assms(1) by (simp add: shaped_def i e)
qed

lemma shaped_scheduler_loop:
  assumes "shaped rid s" and "scheduler_loop pf rid ops s = (x, s')"
  shows "shaped rid s'"
proof -
  have "case scheduler_loop pf rid ops s of
          (None, s') \<Rightarrow> shaped rid s'
        | (Some e, s') \<Rightarrow> (e = AttributeError \<and> shaped rid s') \<or> shaped rid s'"
    by (rule scheduler_loop_rule [where I = "shaped rid" and Q = "\<lambda>e. shaped rid"])
      (auto intro: assms(1) shaped_run_operation simp: shaped_frame)
  with assms(2) show ?thesis
    by (auto split: option.splits)
qed

lemma shaped_start_state: "shaped rid (start_state en config rid)"
proof -
  have "map shape (emitted (start_state en config rid))
          = (if truthy rid then [(''start'', None)] else [])"
    by (simp add: start_state_def shape_emit)
  then show ?thesis
    by (simp add: shaped_def start_state_fields)
qed

lemma shape_finish:
  "map shape (emitted (finish en rid s))
     = map shape (emitted s)
       @ (if truthy rid then [(''results'', None), (''summary'', None)] else [])"
  by (simp add: finish_def Let_def shape_emit)

lemma stream_shape:
  assumes "truthy rid"
  shows "map shape (emitted (final (execute en config ctx rid)))
           = (''start'', None)
             # concat (map call_events (invoked (final (execute en config ctx rid))))
             @ (case raised (execute en config ctx rid) of
                  None \<Rightarrow> [(''results'', None), (''summary'', None)]
                | Some e \<Rightarrow> [])
             @ [(''done'', None)]"
proof -
  let ?pf = "publish_fails en"
  obtain x s2 where l: "scheduler_loop ?pf rid
      (extract_operations_from_config config) (start_state en config rid) = (x, s2)"
    by (cases "scheduler_loop ?pf rid
      (extract_operations_from_config config) (start_state en config rid)") auto
  have "shaped rid s2"
    by (rule shaped_scheduler_loop [OF shaped_start_state l])
  with assms show ?thesis
    by (cases x)
      (simp_all add: execute_unfold [OF l] Let_def shaped_def shape_emit shape_finish
        emit_fields finish_fields)
qed

section \<open>An operator raises\<close>

lemma clean_run_frame:
  "clean_run (s\<lparr>warnings := w\<rparr>) = clean_run s"
  by (simp add: clean_run_def)

lemma clean_run_operation_ok:
  "clean_run s \<Longrightarrow> run_operation pf rid o1 s = (None, s') \<Longrightarrow> clean_run s'"
  by (auto simp: clean_run_def run_operation_def Let_def emit_fields emit_all_fields
      apply_effect_def split: option.splits op_failure.splits)

lemma clean_run_operation_bad:
  assumes "clean_run s" and "run_operation pf rid o1 s = (Some e, s')"
  shows "failed_run rid e s'"
proof (cases "truthy rid")
  case True
  with assms show ?thesis
    by (auto simp: clean_run_def failed_run_def run_operation_def Let_def emit_fields
        emit_all_fields apply_effect_def last_emit split: option.splits op_failure.splits)
next
  case False
  with assms show ?thesis
    by (auto simp: clean_run_def failed_run_def run_operation_def Let_def emit_off
        emit_all_off apply_effect_def split: option.splits op_failure.splits)
qed

lemma scheduler_loop_outcome:
  assumes "clean_run s" and "scheduler_loop pf rid ops s = (x, s')"
  shows "((x = None \<or> x = Some AttributeError) \<and> clean_run s')
         \<or> (\<exists>e. x = Some e \<and> failed_run rid e s')"
proof -
  have "case scheduler_loop pf rid ops s of
          (None, s') \<Rightarrow> clean_run s'
        | (Some e, s') \<Rightarrow> (e = AttributeError \<and> clean_run s') \<or> failed_run rid e s'"
    by (rule scheduler_loop_rule [where I = clean_run and Q = "failed_run rid"])
      (auto intro: assms(1) clean_run_operation_ok clean_run_operation_bad
         simp: clean_run_frame)
  with assms(2) show ?thesis
    by (auto split: option.splits)
qed

lemma clean_run_start_state: "clean_run (start_state en config rid)"
proof -
  have "execution_summary (cxt (start_state en config rid)) = None"
    by (simp add: start_state_def emit_fields initialize_context_def)
  then show ?thesis
    by (auto simp: clean_run_def start_state_fields)
qed

lemma failed_run_last:
  assumes f: "failed_run rid e s" and m: "(n, eff) \<in> set (invoked s)"
    and ff: "failure eff = Some fl"
  shows "last (invoked s) = (n, eff)"
proof -
  from f have ne: "invoked s \<noteq> []"
    and bl: "\<forall>p\<in>set (butlast (invoked s)). failure (snd p) = None"
    by (auto simp: failed_run_def)
  from ne have "invoked s = butlast (invoked s) @ [last (invoked s)]"
    by simp
  then have "set (invoked s) = set (butlast (invoked s)) \<union> {last (invoked s)}"
    by (metis Un_insert_right list.simps(15) set_append sup_bot.right_neutral list.set(1))
  with m bl ff show ?thesis
    by force
qed


text \<open>
  C3, as the code has it.  Take an operator call of the run that did not return.  It is
  the last call of the run, \<^verbatim>\<open>execute\<close> raises its exception, finalization does not
  run, the analytics call is made once, and in a streaming run the stream is \<^verbatim>\<open>start\<close>,
  the events of the calls, and \<^verbatim>\<open>done\<close>: no \<^verbatim>\<open>results\<close> and no \<^verbatim>\<open>summary\<close> follows
  the failure.  When the exception is of class \<^verbatim>\<open>Exception\<close>, the \<^verbatim>\<open>errors\<close> list is the
  single entry of the operator and the message, and the event before \<^verbatim>\<open>done\<close> is the
  \<^verbatim>\<open>error\<close> event of the operator with the message.  When it is outside that class,
  the handler has not run: \<^verbatim>\<open>errors\<close> is empty and the executor has emitted no
  \<^verbatim>\<open>error\<close> event for the call.
\<close>

theorem operator_failure_path:
  assumes "(n, eff) \<in> set (invoked (final (execute en config ctx rid)))"
    and "failure eff = Some fl"
  shows "raised (execute en config ctx rid)
           = Some (case fl of RaisedException msg \<Rightarrow> OperatorError msg
                   | RaisedBaseException cls \<Rightarrow> OperatorAbort cls)
         \<and> errors (cxt (final (execute en config ctx rid)))
             = (case fl of RaisedException msg \<Rightarrow> [(n, msg)] | RaisedBaseException cls \<Rightarrow> [])
         \<and> execution_summary (cxt (final (execute en config ctx rid))) = None
         \<and> last (invoked (final (execute en config ctx rid))) = (n, eff)
         \<and> map event_name (tracked (final (execute en config ctx rid))) = [''search_query'']
         \<and> (truthy rid \<longrightarrow>
               map shape (emitted (final (execute en config ctx rid)))
                 = (''start'', None)
                   # concat (map call_events (invoked (final (execute en config ctx rid))))
                   @ [(''done'', None)])
         \<and> (\<forall>msg. truthy rid \<and> fl = RaisedException msg \<longrightarrow>
               shape (last (butlast (emitted (final (execute en config ctx rid)))))
                 = (''error'', Some n) \<and>
               payload (last (butlast (emitted (final (execute en config ctx rid)))))
                 = ErrorData n msg)"
proof -
  let ?pf = "publish_fails en"
  let ?E = "execute en config ctx rid"
  obtain x s2 where l: "scheduler_loop ?pf rid
      (extract_operations_from_config config) (start_state en config rid) = (x, s2)"
    by (cases "scheduler_loop ?pf rid
      (extract_operations_from_config config) (start_state en config rid)") auto
  have inv: "invoked (final ?E) = invoked s2"
    by (simp add: execute_unfold [OF l] Let_def emit_fields finish_fields split: option.splits)
  have "\<not> clean_run s2"
    using assms unfolding inv clean_run_def by force
  with scheduler_loop_outcome [OF clean_run_start_state l]
  obtain e where x: "x = Some e" and f: "failed_run rid e s2"
    by auto
  have lst: "last (invoked s2) = (n, eff)"
    using failed_run_last [OF f _ assms(2)] assms(1) by (simp add: inv)
  have rs: "raised ?E = Some e"
    and cx: "cxt (final ?E) = cxt s2"
    and bl: "truthy rid \<longrightarrow> butlast (emitted (final ?E)) = emitted s2"
    by (simp_all add: execute_unfold [OF l] Let_def x emit_fields last_emit)
  from f have sm: "execution_summary (cxt s2) = None"
    by (simp add: failed_run_def)
  have c6: "map event_name (tracked (final ?E)) = [''search_query'']"
    by (simp add: execute_tracked analytics_call_of_def)
  have sh: "truthy rid \<longrightarrow> map shape (emitted (final ?E))
      = (''start'', None) # concat (map call_events (invoked (final ?E))) @ [(''done'', None)]"
    using stream_shape [of rid en config ctx] by (simp add: rs)
  show ?thesis
  proof (cases fl)
    case (RaisedException msg)
    with f lst assms(2) have "e = OperatorError msg" "errors (cxt s2) = [(n, msg)]"
      "truthy rid \<longrightarrow> etype (last (emitted s2)) = ''error'' \<and>
         op (last (emitted s2)) = Some n \<and> payload (last (emitted s2)) = ErrorData n msg"
      by (simp_all add: failed_run_def)
    with RaisedException rs sm c6 sh bl lst show ?thesis
      by (simp add: cx inv shape_def)
  next
    case (RaisedBaseException cls)
    with f lst assms(2) have "e = OperatorAbort cls" "errors (cxt s2) = []"
      by (simp_all add: failed_run_def)
    with RaisedBaseException rs sm c6 sh lst show ?thesis
      by (simp add: cx inv)
  qed
qed

theorem operator_failure_path_witness:
  "map (\<lambda>c. (fst c, failure (snd c)))
       (invoked (final (execute env0 config_fail ctx0 (Some ''r1''))))
     = [(''embedding'', None), (''vector_search'', Some (RaisedException ''boom''))]
   \<and> raised (execute env0 config_fail ctx0 (Some ''r1'')) = Some (OperatorError ''boom'')
   \<and> errors (cxt (final (execute env0 config_fail ctx0 (Some ''r1''))))
       = [(''vector_search'', ''boom'')]
   \<and> payload (last (butlast (emitted (final (execute env0 config_fail ctx0 (Some ''r1''))))))
       = ErrorData ''vector_search'' ''boom''"
proof -
  let ?eff = "(keep_effect (cxt (final (execute env0 config_fail ctx0 (Some ''r1'')))))
                \<lparr>failure := Some (RaisedException ''boom'')\<rparr>"
  have i: "invoked (final (execute env0 config_fail ctx0 (Some ''r1'')))
             = [(''embedding'', keep_effect (cxt (final (execute env0 config_fail ctx0 (Some ''r1''))))),
                (''vector_search'', ?eff)]"
    by (simp add: config_fail_def eval_defs)
  have h1: "(''vector_search'', ?eff)
      \<in> set (invoked (final (execute env0 config_fail ctx0 (Some ''r1''))))"
    by (subst i) simp
  have h2: "failure ?eff = Some (RaisedException ''boom'')"
    by simp
  have t: "truthy (Some ''r1'')"
    by (simp add: truthy_def)
  have m: "map (\<lambda>c. (fst c, failure (snd c)))
       (invoked (final (execute env0 config_fail ctx0 (Some ''r1''))))
     = [(''embedding'', None), (''vector_search'', Some (RaisedException ''boom''))]"
    by (subst i) (simp add: keep_effect_def)
  from operator_failure_path [OF h1 h2] t m show ?thesis
    by simp
qed

text \<open>An operator whose call is ended by \<^verbatim>\<open>CancelledError\<close>: the exception reaches the
  caller, nothing is appended to \<^verbatim>\<open>errors\<close> and no \<^verbatim>\<open>error\<close> event is emitted.\<close>

theorem operator_failure_path_counterexample:
  "map (\<lambda>c. (fst c, failure (snd c)))
       (invoked (final (execute env0 config_cancel ctx0 (Some ''r1''))))
     = [(''embedding'', None),
        (''vector_search'', Some (RaisedBaseException ''CancelledError''))]
   \<and> raised (execute env0 config_cancel ctx0 (Some ''r1''))
       = Some (OperatorAbort ''CancelledError'')
   \<and> errors (cxt (final (execute env0 config_cancel ctx0 (Some ''r1'')))) = []
   \<and> map etype (emitted (final (execute env0 config_cancel ctx0 (Some ''r1''))))
       = [''start'', ''operator_start'', ''embedding_done'', ''operator_end'',
          ''operator_start'', ''done'']"
  by (simp add: config_cancel_def eval_defs)

section \<open>Events of one operator\<close>

lemma update_fresh: "k \<notin> fst ` set al \<Longrightarrow> AList.update k v al = al @ [(k, v)]"
  by (induction al) auto

lemma timed_run_frame: "timed_run ops (s\<lparr>warnings := w\<rparr>) = timed_run ops s"
  by (simp add: timed_run_def)

lemma timed_run_operation:
  assumes "timed_run ops s" and "o1 \<in> set (present ops)" and "name o1 \<notin> executed s"
    and "run_operation pf rid o1 s = (None, s')"
  shows "timed_run ops s'"
proof -
  from assms(1,3) have fresh: "name o1 \<notin> fst ` set (timings (cxt s))"
    "name o1 \<notin> fst ` set (invoked s)"
    by (auto simp: timed_run_def simp flip: set_map)
  from assms(4) have i: "invoked s' = invoked s @ [(name o1, run o1 (cxt s))]"
    and e: "executed s' = insert (name o1) (executed s)"
    and er: "errors (cxt s') = errors (cxt s)"
    and t: "timings (cxt s')
              = AList.update (name o1) (elapsed_ms (run o1 (cxt s))) (timings (cxt s))"
    by (auto simp: run_operation_def Let_def emit_fields emit_all_fields executed_emit
        executed_emit_all apply_effect_def split: option.splits op_failure.splits)
  show ?thesis
    using assms(1,2) fresh unfolding timed_run_def i e er t
    by (auto simp: update_fresh)
qed

lemma timed_run_operation_bad:
  assumes "timed_run ops s" and "name o1 \<notin> executed s"
    and "run_operation pf rid o1 s = (Some e, s')"
  shows "distinct (map fst (invoked s'))"
proof -
  from assms(3) have "invoked s' = invoked s @ [(name o1, run o1 (cxt s))]"
    by (auto simp: run_operation_def Let_def emit_fields emit_all_fields
        split: option.splits op_failure.splits)
  with assms(1,2) show ?thesis
    by (auto simp: timed_run_def simp flip: set_map)
qed

lemma timed_run_start_state: "timed_run ops (start_state en config rid)"
  by (simp add: timed_run_def start_state_fields)

lemma calls_distinct:
  assumes "distinct (map name (present ops))" and "timed_run ops s"
    and "scheduler_loop pf rid ops s = (x, s')"
  shows "distinct (map fst (invoked s'))"
proof -
  have "case scheduler_loop pf rid ops s of
          (None, s') \<Rightarrow> timed_run ops s'
        | (Some e, s') \<Rightarrow> (e = AttributeError \<and> timed_run ops s')
            \<or> distinct (map fst (invoked s'))"
    by (rule scheduler_loop_rule [where I = "timed_run ops"
          and Q = "\<lambda>e s. distinct (map fst (invoked s))"])
      (use assms(1,2) in \<open>auto intro: timed_run_operation timed_run_operation_bad
         simp: timed_run_frame\<close>)
  with assms(3) show ?thesis
    by (auto simp: timed_run_def split: option.splits)
qed

lemma concat_pick:
  "distinct (map fst xs) \<Longrightarrow> p \<in> set xs \<Longrightarrow>
     concat (map (\<lambda>c. if fst c = fst p then g c else []) xs) = g p"
proof (induction xs)
  case Nil
  then show ?case by simp
next
  case (Cons a xs)
  show ?case
  proof (cases "a = p")
    case True
    have "concat (map (\<lambda>c. if fst c = fst p then g c else []) xs) = []"
      using Cons.prems(1) True by (auto simp: image_iff)
    with True show ?thesis by simp
  next
    case False
    with Cons.prems have "p \<in> set xs" and "fst a \<noteq> fst p"
      by (auto simp: image_iff)
    with Cons show ?thesis by simp
  qed
qed

lemma filter_call_events:
  assumes "\<forall>ev\<in>set (own_events (snd c)). fst ev \<notin> {''operator_start'', ''operator_end'', ''error''}"
  shows "filter (\<lambda>ev. snd ev = Some n \<and> fst ev \<in> {''operator_start'', ''operator_end'', ''error''})
           (call_events c)
         = (if fst c = n then call_events (fst c, (snd c)\<lparr>own_events := []\<rparr>) else [])"
proof -
  have "filter (\<lambda>ev. snd ev = Some n \<and> fst ev \<in> {''operator_start'', ''operator_end'', ''error''})
          (map (\<lambda>(t, d, n). (t, n)) (own_events (snd c))) = []"
    using assms by (auto simp: filter_empty_conv)
  then show ?thesis
    by (auto simp: call_events_def split: option.splits op_failure.splits)
qed


text \<open>
  C2, as the code has it.  In a streaming run the stream is \<^verbatim>\<open>start\<close>, then for every
  operator call, in the order of the calls, the \<^verbatim>\<open>operator_start\<close> of the executor with
  the operator's name, the events the operator published itself, and one event of the
  executor for the outcome: \<^verbatim>\<open>operator_end\<close> when the call returned, \<^verbatim>\<open>error\<close> when it
  raised an exception of class \<^verbatim>\<open>Exception\<close>, none when it was ended by an exception
  outside that class; then \<^verbatim>\<open>results\<close> and \<^verbatim>\<open>summary\<close> when no call failed, and
  \<^verbatim>\<open>done\<close>.  With distinct names in the plan no operator is called twice.  So, when
  the operators publish no event of the three types themselves, the events of these
  types with the name of an operator that was called are exactly its \<^verbatim>\<open>operator_start\<close>
  followed by the event of its outcome, if any.
\<close>

theorem operator_transitions:
  assumes "truthy rid"
  shows "map shape (emitted (final (execute en config ctx rid)))
           = (''start'', None)
             # concat (map call_events (invoked (final (execute en config ctx rid))))
             @ (case raised (execute en config ctx rid) of
                  None \<Rightarrow> [(''results'', None), (''summary'', None)]
                | Some e \<Rightarrow> [])
             @ [(''done'', None)]
         \<and> (distinct (map name (present (extract_operations_from_config config))) \<longrightarrow>
               distinct (map fst (invoked (final (execute en config ctx rid)))))
         \<and> (distinct (map name (present (extract_operations_from_config config))) \<and>
             (\<forall>c\<in>set (invoked (final (execute en config ctx rid))).
                \<forall>ev\<in>set (own_events (snd c)).
                  fst ev \<notin> {''operator_start'', ''operator_end'', ''error''}) \<longrightarrow>
             (\<forall>p\<in>set (invoked (final (execute en config ctx rid))).
                filter (\<lambda>ev. snd ev = Some (fst p) \<and>
                              fst ev \<in> {''operator_start'', ''operator_end'', ''error''})
                  (map shape (emitted (final (execute en config ctx rid))))
                = call_events (fst p, (snd p)\<lparr>own_events := []\<rparr>)))"
proof -
  let ?pf = "publish_fails en"
  let ?E = "execute en config ctx rid"
  let ?L = "{''operator_start'', ''operator_end'', ''error''}"
  let ?tail = "(case raised ?E of None \<Rightarrow> [(''results'', None), (''summary'', None)]
                | Some e \<Rightarrow> []) @ [(''done'', None :: string option)]"
  obtain x s2 where l: "scheduler_loop ?pf rid
      (extract_operations_from_config config) (start_state en config rid) = (x, s2)"
    by (cases "scheduler_loop ?pf rid
      (extract_operations_from_config config) (start_state en config rid)") auto
  have inv: "invoked (final ?E) = invoked s2"
    by (simp add: execute_unfold [OF l] Let_def emit_fields finish_fields split: option.splits)
  have eq: "map shape (emitted (final ?E))
      = (''start'', None) # concat (map call_events (invoked (final ?E))) @ ?tail"
    using stream_shape [OF assms, of en config ctx] by simp
  have di: "distinct (map fst (invoked (final ?E)))"
    if "distinct (map name (present (extract_operations_from_config config)))"
    unfolding inv by (rule calls_distinct [OF that timed_run_start_state l])
  have per: "filter (\<lambda>ev. snd ev = Some (fst p) \<and> fst ev \<in> ?L) (map shape (emitted (final ?E)))
               = call_events (fst p, (snd p)\<lparr>own_events := []\<rparr>)"
    if d: "distinct (map name (present (extract_operations_from_config config)))"
      and o: "\<forall>c\<in>set (invoked (final ?E)). \<forall>ev\<in>set (own_events (snd c)). fst ev \<notin> ?L"
      and p: "p \<in> set (invoked (final ?E))" for p
  proof -
    let ?P = "\<lambda>ev :: string \<times> string option. snd ev = Some (fst p) \<and> fst ev \<in> ?L"
    let ?g = "\<lambda>c :: string \<times> op_effect. call_events (fst c, (snd c)\<lparr>own_events := []\<rparr>)"
    have t: "filter ?P ?tail = []"
      by (simp split: option.splits)
    have mapeq: "map (\<lambda>c. filter ?P (call_events c)) (invoked (final ?E))
            = map (\<lambda>c. if fst c = fst p then ?g c else []) (invoked (final ?E))"
      using o by (intro map_cong refl filter_call_events) blast
    have "filter ?P (concat (map call_events (invoked (final ?E))))
            = concat (map (\<lambda>c. filter ?P (call_events c)) (invoked (final ?E)))"
      by (simp add: filter_concat comp_def)
    also have "\<dots>
            = concat (map (\<lambda>c. if fst c = fst p then ?g c else []) (invoked (final ?E)))"
      by (simp only: mapeq)
    also have "\<dots> = ?g p"
      by (rule concat_pick [OF di [OF d] p])
    finally have m: "filter ?P (concat (map call_events (invoked (final ?E)))) = ?g p" .
    show ?thesis
      unfolding eq using m t by simp
  qed
  show ?thesis
    using eq di per by blast
qed

theorem operator_transitions_witness:
  "truthy (Some ''r1'')
   \<and> map shape (emitted (final (execute env0 config_cancel ctx0 (Some ''r1''))))
       = [(''start'', None), (''operator_start'', Some ''embedding''),
          (''embedding_done'', Some ''embedding''), (''operator_end'', Some ''embedding''),
          (''operator_start'', Some ''vector_search''), (''done'', None)]
   \<and> distinct (map fst (invoked (final (execute env0 config_cancel ctx0 (Some ''r1'')))))
   \<and> filter (\<lambda>ev. snd ev = Some ''embedding'' \<and>
                   fst ev \<in> {''operator_start'', ''operator_end'', ''error''})
        (map shape (emitted (final (execute env0 config_cancel ctx0 (Some ''r1'')))))
       = [(''operator_start'', Some ''embedding''), (''operator_end'', Some ''embedding'')]
   \<and> filter (\<lambda>ev. snd ev = Some ''vector_search'' \<and>
                   fst ev \<in> {''operator_start'', ''operator_end'', ''error''})
        (map shape (emitted (final (execute env0 config_cancel ctx0 (Some ''r1'')))))
       = [(''operator_start'', Some ''vector_search'')]"
proof -
  let ?e1 = "\<lparr>new_collection_slug = None, new_raw_results = None, new_final_results = None,
              own_events = [(''embedding_done'', ''{}'', Some ''embedding'')],
              elapsed_ms = 1, failure = None\<rparr>"
  let ?e2 = "\<lparr>new_collection_slug = None, new_raw_results = None, new_final_results = None,
              own_events = [], elapsed_ms = 1,
              failure = Some (RaisedBaseException ''CancelledError'')\<rparr>"
  have h1: "truthy (Some ''r1'')"
    by (simp add: truthy_def)
  have h2: "distinct (map name (present (extract_operations_from_config config_cancel)))"
    by (simp add: config_cancel_def eval_defs)
  have i: "invoked (final (execute env0 config_cancel ctx0 (Some ''r1'')))
             = [(''embedding'', ?e1), (''vector_search'', ?e2)]"
    by (simp add: config_cancel_def eval_defs)
  have r: "raised (execute env0 config_cancel ctx0 (Some ''r1''))
             = Some (OperatorAbort ''CancelledError'')"
    by (simp add: config_cancel_def eval_defs)
  from operator_transitions [OF h1, of env0 config_cancel ctx0] h1 h2 r show ?thesis
    unfolding i by (simp add: call_events_def)
qed

text \<open>An operator whose call is ended by \<^verbatim>\<open>CancelledError\<close> has begun execution; the
  only event with its name is \<^verbatim>\<open>operator_start\<close>.\<close>

theorem operator_transitions_counterexample:
  "map fst (invoked (final (execute env0 config_cancel ctx0 (Some ''r1''))))
     = [''embedding'', ''vector_search'']
   \<and> map etype (filter (\<lambda>e. op e = Some ''vector_search'')
                  (emitted (final (execute env0 config_cancel ctx0 (Some ''r1'')))))
       = [''operator_start'']"
  by (simp add: config_cancel_def eval_defs)

section \<open>The analytics sink fails\<close>

lemma emit_recorded:
  "emit pf rid t d n (s\<lparr>recorded := r\<rparr>) = (emit pf rid t d n s)\<lparr>recorded := r\<rparr>"
  by (simp add: emit_def Let_def split: option.splits prod.splits)

lemma run_operation_recorded:
  "run_operation pf rid o1 s = (x, s') \<Longrightarrow> recorded s' = recorded s"
  by (auto simp: run_operation_def Let_def emit_fields emit_all_fields
      split: option.splits op_failure.splits)

lemma scheduler_loop_recorded:
  assumes "scheduler_loop pf rid ops s = (x, s')"
  shows "recorded s' = recorded s"
proof -
  have "case scheduler_loop pf rid ops s of
          (None, s') \<Rightarrow> recorded s' = recorded s
        | (Some e, s') \<Rightarrow> (e = AttributeError \<and> recorded s' = recorded s)
            \<or> recorded s' = recorded s"
    by (rule scheduler_loop_rule [where I = "\<lambda>t. recorded t = recorded s"
          and Q = "\<lambda>e t. recorded t = recorded s"])
      (auto dest: run_operation_recorded)
  with assms show ?thesis
    by (auto split: option.splits)
qed

lemma env_sink_simps:
  "start_state (en\<lparr>sink_fails := b\<rparr>) config rid = start_state en config rid"
  "finish (en\<lparr>sink_fails := b\<rparr>) rid s = finish en rid s"
  "analytics_call_of (en\<lparr>sink_fails := b\<rparr>) ctx rid c = analytics_call_of en ctx rid c"
  by (simp_all add: start_state_def finish_def analytics_call_of_def)

text \<open>
  C9.  With \<^verbatim>\<open>track_event\<close> as the spec describes it, a failure of the analytics sink
  changes nothing that the caller or a subscriber sees: a run in which the sink fails
  and the same run in which it does not raise the same exception or return the same
  context, emit and publish the same events, the last of them \<^verbatim>\<open>done\<close> in a streaming
  run, and make the same call of \<^verbatim>\<open>track_event\<close>; they differ only in what the sink has
  recorded.  \<^verbatim>\<open>execute\<close> itself has no handler around the call.
\<close>

theorem sink_failure_dropped:
  "raised (execute (en\<lparr>sink_fails := True\<rparr>) config ctx rid)
     = raised (execute (en\<lparr>sink_fails := False\<rparr>) config ctx rid)
   \<and> cxt (final (execute (en\<lparr>sink_fails := True\<rparr>) config ctx rid))
       = cxt (final (execute (en\<lparr>sink_fails := False\<rparr>) config ctx rid))
   \<and> emitted (final (execute (en\<lparr>sink_fails := True\<rparr>) config ctx rid))
       = emitted (final (execute (en\<lparr>sink_fails := False\<rparr>) config ctx rid))
   \<and> published (final (execute (en\<lparr>sink_fails := True\<rparr>) config ctx rid))
       = published (final (execute (en\<lparr>sink_fails := False\<rparr>) config ctx rid))
   \<and> tracked (final (execute (en\<lparr>sink_fails := True\<rparr>) config ctx rid))
       = tracked (final (execute (en\<lparr>sink_fails := False\<rparr>) config ctx rid))
   \<and> recorded (final (execute (en\<lparr>sink_fails := True\<rparr>) config ctx rid)) = []
   \<and> recorded (final (execute (en\<lparr>sink_fails := False\<rparr>) config ctx rid))
       = tracked (final (execute (en\<lparr>sink_fails := False\<rparr>) config ctx rid))
   \<and> (truthy rid \<longrightarrow>
         etype (last (emitted (final (execute (en\<lparr>sink_fails := True\<rparr>) config ctx rid))))
           = ''done'')"
proof -
  let ?pf = "publish_fails en"
  obtain x s2 where l: "scheduler_loop ?pf rid
      (extract_operations_from_config config) (start_state en config rid) = (x, s2)"
    by (cases "scheduler_loop ?pf rid
      (extract_operations_from_config config) (start_state en config rid)") auto
  have l1: "scheduler_loop (publish_fails (en\<lparr>sink_fails := b\<rparr>)) rid
      (extract_operations_from_config config)
      (start_state (en\<lparr>sink_fails := b\<rparr>) config rid) = (x, s2)" for b
    by (simp add: env_sink_simps l)
  let ?s3 = "case x of Some e \<Rightarrow> s2 | None \<Rightarrow> finish en rid s2"
  let ?call = "analytics_call_of en ctx rid (cxt ?s3)"
  let ?d = "emit ?pf rid ''done'' (DoneData rid) None (?s3\<lparr>tracked := tracked ?s3 @ [?call]\<rparr>)"
  have r3: "recorded ?s3 = []" and t3: "tracked ?s3 = []"
    using scheduler_loop_recorded [OF l] scheduler_loop_tracked [OF l]
    by (simp_all add: start_state_fields finish_fields split: option.splits)
  have t: "final (execute (en\<lparr>sink_fails := True\<rparr>) config ctx rid) = ?d"
    and f: "final (execute (en\<lparr>sink_fails := False\<rparr>) config ctx rid)
              = ?d\<lparr>recorded := [?call]\<rparr>"
    and r: "raised (execute (en\<lparr>sink_fails := b\<rparr>) config ctx rid) = x" for b
    using r3
    by (simp_all add: execute_unfold [OF l1] Let_def env_sink_simps emit_recorded
        cong: option.case_cong)
  have td: "tracked ?d = [?call]" and rd: "recorded ?d = []"
    by (simp_all add: emit_fields t3 r3)
  have dn: "truthy rid \<longrightarrow> etype (last (emitted ?d)) = ''done''"
    by (simp add: last_emit)
  show ?thesis
    unfolding t f r using td rd dn by simp
qed

theorem sink_failure_dropped_witness:
  "truthy (Some ''r1'')
   \<and> raised (execute env_sink_fails config_a ctx0 (Some ''r1'')) = None
   \<and> cxt (final (execute env_sink_fails config_a ctx0 (Some ''r1'')))
       = cxt (final (execute env0 config_a ctx0 (Some ''r1'')))
   \<and> etype (last (emitted (final (execute env_sink_fails config_a ctx0 (Some ''r1'')))))
       = ''done''
   \<and> recorded (final (execute env_sink_fails config_a ctx0 (Some ''r1''))) = []
   \<and> length (recorded (final (execute env0 config_a ctx0 (Some ''r1'')))) = 1"
proof -
  have h: "truthy (Some ''r1'')"
    by (simp add: truthy_def)
  have e0: "env0\<lparr>sink_fails := False\<rparr> = env0" "env0\<lparr>sink_fails := True\<rparr> = env_sink_fails"
    by (simp_all add: env0_def env_sink_fails_def)
  have r0: "raised (execute env0 config_a ctx0 (Some ''r1'')) = None"
    by (simp add: config_a_def eval_defs)
  have t0: "length (tracked (final (execute env0 config_a ctx0 (Some ''r1'')))) = 1"
    by (simp add: execute_tracked)
  note th = sink_failure_dropped [of env0 config_a ctx0 "Some ''r1''", unfolded e0]
  from th have c1: "raised (execute env_sink_fails config_a ctx0 (Some ''r1''))
                      = raised (execute env0 config_a ctx0 (Some ''r1''))"
    and c2: "cxt (final (execute env_sink_fails config_a ctx0 (Some ''r1'')))
               = cxt (final (execute env0 config_a ctx0 (Some ''r1'')))"
    and c6: "recorded (final (execute env_sink_fails config_a ctx0 (Some ''r1''))) = []"
    and c7: "recorded (final (execute env0 config_a ctx0 (Some ''r1'')))
               = tracked (final (execute env0 config_a ctx0 (Some ''r1'')))"
    and c8: "truthy (Some ''r1'') \<longrightarrow>
               etype (last (emitted (final (execute env_sink_fails config_a ctx0 (Some ''r1'')))))
                 = ''done''"
    by blast+
  from c8 h have c8': "etype (last (emitted (final (execute env_sink_fails config_a ctx0
                         (Some ''r1''))))) = ''done''"
    by blast
  show ?thesis
    using h r0 t0 c1 c2 c6 c7 c8' by simp
qed

section \<open>Unsatisfiable dependencies\<close>

lemma run_operation_Some:
  "run_operation pf rid o1 s = (Some e, s') \<Longrightarrow>
     e \<noteq> AttributeError \<and> executed s' = executed s"
  by (auto simp: run_operation_def Let_def emit_fields executed_emit executed_emit_all
      split: option.splits op_failure.splits)

lemma run_operation_warnings:
  "run_operation pf rid o1 s = (x, s') \<Longrightarrow> warnings s' = warnings s"
  by (auto simp: run_operation_def Let_def emit_fields emit_all_fields
      split: option.splits op_failure.splits)

lemma run_batch_outcome:
  "run_batch pf rid batch s = (x, s') \<Longrightarrow>
     warnings s' = warnings s \<and> x \<noteq> Some AttributeError"
proof (induction batch arbitrary: s)
  case Nil
  then show ?case by simp
next
  case (Cons o1 batch)
  then show ?case
    by (auto split: prod.splits option.splits
        dest: run_operation_warnings run_operation_Some)
qed

text \<open>A batch that ends with an exception has run a prefix of its operators to the end
  and has failed in the next one.\<close>

lemma run_batch_failed:
  "run_batch pf rid batch s = (Some e, s') \<Longrightarrow>
     \<exists>pre o1 post. batch = pre @ o1 # post \<and> executed s' = executed s \<union> name ` set pre"
proof (induction batch arbitrary: s)
  case Nil
  then show ?case by simp
next
  case (Cons a batch)
  obtain x s1 where r: "run_operation pf rid a s = (x, s1)"
    by (cases "run_operation pf rid a s") auto
  show ?case
  proof (cases x)
    case (Some e1)
    with r Cons.prems have "executed s' = executed s"
      by (auto dest: run_operation_Some)
    then have "a # batch = [] @ a # batch \<and> executed s' = executed s \<union> name ` set []"
      by simp
    then show ?thesis by blast
  next
    case None
    with r Cons.prems have rb: "run_batch pf rid batch s1 = (Some e, s')"
      by simp
    from r None have ex: "executed s1 = insert (name a) (executed s)"
      by (simp add: executed_run_operation)
    from Cons.IH [OF rb] obtain pre o1 post where
      "batch = pre @ o1 # post" "executed s' = executed s1 \<union> name ` set pre"
      by blast
    with ex have "a # batch = (a # pre) @ o1 # post
        \<and> executed s' = executed s \<union> name ` set (a # pre)"
      by auto
    then show ?thesis by blast
  qed
qed

text \<open>The operator in which the loop failed is still unexecuted and still ready.\<close>

lemma scheduler_loop_failed_ready:
  assumes "None \<notin> set ops" and "distinct (map name (present ops))"
    and "scheduler_loop pf rid ops s = (Some e, s')"
  shows "find_ready_operations ops (executed s') \<noteq> Inr []"
  using assms
proof (induction pf rid ops s rule: scheduler_loop.induct)
  case (1 pf rid ops s)
  note nn = "1.prems"(1) and di = "1.prems"(2) and res = "1.prems"(3)
  let ?P = "\<lambda>ex o1. name o1 \<notin> ex \<and>
              (\<forall>d\<in>set (depends_on o1). d \<in> ex \<or> d \<notin> name ` set (present ops))"
  have fr: "find_ready_operations ops ex = Inr (filter (?P ex) (present ops))" for ex
    using find_ready_from_present [OF nn nn, of ex] by (simp add: find_ready_operations_def)
  show ?case
  proof (cases "card (executed s) < length ops")
    case False
    with res show ?thesis
      by (subst (asm) scheduler_loop.simps) simp
  next
    case lt: True
    let ?ready = "filter (?P (executed s)) (present ops)"
    show ?thesis
    proof (cases "?ready = []")
      case True
      with lt res fr [of "executed s"] show ?thesis
        by (subst (asm) scheduler_loop.simps) simp
    next
      case ne: False
      obtain x s1 where rb: "run_batch pf rid ?ready s = (x, s1)"
        by (cases "run_batch pf rid ?ready s") auto
      show ?thesis
      proof (cases x)
        case None
        with rb lt ne res fr [of "executed s"]
        have "scheduler_loop pf rid ops s1 = (Some e, s')"
          by (subst (asm) scheduler_loop.simps) simp
        then show ?thesis
          by (rule "1.IH" [OF lt fr ne rb [symmetric] None nn di])
      next
        case (Some e1)
        with rb lt ne res fr [of "executed s"] have s': "s' = s1"
          by (subst (asm) scheduler_loop.simps) simp
        from run_batch_failed [OF rb [unfolded Some]] obtain pre o1 post where
          sp: "?ready = pre @ o1 # post" and ex: "executed s1 = executed s \<union> name ` set pre"
          by blast
        have "o1 \<in> set ?ready"
          by (subst sp) simp
        then have o1: "o1 \<in> set (present ops)" "?P (executed s) o1"
          by auto
        have "distinct (map name ?ready)"
          using di by (rule distinct_map_filter)
        then have "name o1 \<notin> name ` set pre"
          by (subst (asm) sp) auto
        with o1 ex have "?P (executed s1) o1"
          by auto
        with o1(1) have "o1 \<in> set (filter (?P (executed s1)) (present ops))"
          by simp
        then have "filter (?P (executed s1)) (present ops) \<noteq> []"
          by (metis empty_iff list.set(1))
        then show ?thesis
          by (simp add: fr s')
      qed
    qed
  qed
qed

lemma scheduler_loop_end:
  assumes "None \<notin> set ops"
  shows "case scheduler_loop pf rid ops s of
           (None, s') \<Rightarrow>
             (length ops \<le> card (executed s') \<and> warnings s' = warnings s) \<or>
             (card (executed s') < length ops \<and>
              find_ready_operations ops (executed s') = Inr [] \<and>
              warnings s' = warnings s @ [remaining ops (executed s')])
         | (Some e, s') \<Rightarrow> e \<noteq> AttributeError"
  using assms
proof (induction pf rid ops s rule: scheduler_loop.induct)
  case (1 pf rid ops s)
  show ?case
  proof (cases "card (executed s) < length ops")
    case False
    then show ?thesis
      by (subst scheduler_loop.simps) simp
  next
    case lt: True
    from "1.prems" obtain ready where Inr: "find_ready_operations ops (executed s) = Inr ready"
      by (simp add: find_ready_operations_def find_ready_from_present)
    show ?thesis
    proof (cases "ready = []")
      case True
      with lt Inr show ?thesis
        by (subst scheduler_loop.simps) simp
    next
      case ne: False
      obtain x s1 where rb: "run_batch pf rid ready s = (x, s1)"
        by (cases "run_batch pf rid ready s") auto
      note out = run_batch_outcome [OF rb]
      show ?thesis
      proof (cases x)
        case (Some e)
        with out rb lt Inr ne show ?thesis
          by (subst scheduler_loop.simps) simp
      next
        case None
        have "case scheduler_loop pf rid ops s1 of
           (None, s') \<Rightarrow>
             (length ops \<le> card (executed s') \<and> warnings s' = warnings s1) \<or>
             (card (executed s') < length ops \<and>
              find_ready_operations ops (executed s') = Inr [] \<and>
              warnings s' = warnings s1 @ [remaining ops (executed s')])
         | (Some e, s') \<Rightarrow> e \<noteq> AttributeError"
          by (rule "1.IH" [OF lt Inr ne rb [symmetric] None "1.prems"])
        with out rb None lt Inr ne show ?thesis
          by (subst scheduler_loop.simps) (auto split: prod.splits option.splits)
      qed
    qed
  qed
qed

lemma remaining_empty:
  "name ` set (present ops) \<subseteq> ex \<Longrightarrow> remaining ops ex = []"
  by (auto simp: remaining_def filter_empty_conv)

lemma all_executed:
  assumes "executed s \<subseteq> name ` set (present ops)" and "length ops \<le> card (executed s)"
  shows "remaining ops (executed s) = []"
proof -
  have "length (present ops) \<le> length ops"
    by (induction ops rule: present.induct) auto
  moreover have "card (name ` set (present ops)) \<le> length (present ops)"
    by (metis card_length length_map list.set_map)
  ultimately have "card (name ` set (present ops)) \<le> card (executed s)"
    using assms(2) by simp
  with assms(1) have "executed s = name ` set (present ops)"
    by (simp add: card_seteq)
  then show ?thesis
    by (simp add: remaining_empty)
qed


lemma finalization_summary:
  "execution_summary (finalize_context c)
     = Some \<lparr>operations_executed = length (timings c),
             total_time_ms = sum_list (map snd (timings c)),
             errors_count = length (errors c)\<rparr>"
  by (simp add: finalize_context_def Let_def py_sum_sum_list split: option.splits)

lemma last_results_frame: "last_results (s\<lparr>warnings := w\<rparr>) = last_results s"
  by (simp add: last_results_def)

lemma last_results_operation:
  "run_operation pf rid o1 s = (x, s') \<Longrightarrow> last_results s'"
  by (auto simp: last_results_def run_operation_def Let_def emit_fields emit_all_fields
      apply_effect_def split: option.splits op_failure.splits)

lemma last_results_start_state: "last_results (start_state en config rid)"
  by (simp add: last_results_def start_state_fields)

text \<open>
  C6.  Take a plan with distinct names.  If, with the set \<^verbatim>\<open>executed\<close> as \<^verbatim>\<open>execute\<close>
  leaves it, no operator of the plan is ready and operators of the plan are unexecuted,
  then the loop has ended on such an iteration: one warning has been logged, with the
  names of the unexecuted operators in plan order; \<^verbatim>\<open>execute\<close> returns; every operator
  call of the run has returned, and \<^verbatim>\<open>operations_executed\<close> of the summary is the number
  of these calls, which is the size of \<^verbatim>\<open>executed\<close> (0 when there was none);
  \<^verbatim>\<open>final_results\<close> is present, and it is the empty list when no call left
  \<^verbatim>\<open>raw_results\<close> or \<^verbatim>\<open>final_results\<close> in the context.
\<close>

theorem unsatisfiable_dependencies:
  assumes dist: "distinct (map name (present (extract_operations_from_config config)))"
    and stuck: "find_ready_operations (extract_operations_from_config config)
                  (executed (final (execute en config ctx rid))) = Inr []"
    and rem: "remaining (extract_operations_from_config config)
                (executed (final (execute en config ctx rid))) \<noteq> []"
  shows "raised (execute en config ctx rid) = None
     \<and> warnings (final (execute en config ctx rid))
         = [remaining (extract_operations_from_config config)
              (executed (final (execute en config ctx rid)))]
     \<and> execution_summary (cxt (final (execute en config ctx rid)))
         = Some \<lparr>operations_executed = length (invoked (final (execute en config ctx rid))),
                 total_time_ms
                   = sum_list (map snd (timings (cxt (final (execute en config ctx rid))))),
                 errors_count = 0\<rparr>
     \<and> length (invoked (final (execute en config ctx rid)))
         = card (executed (final (execute en config ctx rid)))
     \<and> (\<forall>c\<in>set (invoked (final (execute en config ctx rid))). failure (snd c) = None)
     \<and> final_results (cxt (final (execute en config ctx rid))) \<noteq> None
     \<and> ((\<forall>c\<in>set (invoked (final (execute en config ctx rid))).
            new_raw_results (snd c) = None \<and> new_final_results (snd c) = None) \<longrightarrow>
          final_results (cxt (final (execute en config ctx rid))) = Some [])"
proof -
  let ?pf = "publish_fails en"
  let ?ops = "extract_operations_from_config config"
  let ?E = "execute en config ctx rid"
  obtain x s2 where l: "scheduler_loop ?pf rid ?ops (start_state en config rid) = (x, s2)"
    by (cases "scheduler_loop ?pf rid ?ops (start_state en config rid)") auto
  have ex: "executed (final ?E) = executed s2"
    by (simp add: execute_unfold [OF l] Let_def executed_emit finish_fields
        split: option.splits)
  have nn: "None \<notin> set ?ops"
    by (rule find_ready_operations_Inr(1) [OF stuck])
  have x: "x = None"
  proof (cases x)
    case (Some e)
    with scheduler_loop_failed_ready [OF nn dist l [unfolded Some]] stuck show ?thesis
      by (simp add: ex)
  qed simp
  have r1: "case scheduler_loop ?pf rid ?ops (start_state en config rid) of
              (None, s') \<Rightarrow> timed_run ?ops s'
            | (Some e, s') \<Rightarrow> (e = AttributeError \<and> timed_run ?ops s') \<or> True"
    by (rule scheduler_loop_rule [where I = "timed_run ?ops" and Q = "\<lambda>e s. True"])
      (use dist in \<open>auto intro: timed_run_start_state timed_run_operation
         simp: timed_run_frame\<close>)
  have r3: "case scheduler_loop ?pf rid ?ops (start_state en config rid) of
              (None, s') \<Rightarrow> last_results s'
            | (Some e, s') \<Rightarrow> (e = AttributeError \<and> last_results s') \<or> last_results s'"
    by (rule scheduler_loop_rule [where I = last_results and Q = "\<lambda>e. last_results"])
      (auto intro: last_results_start_state last_results_operation
         simp: last_results_frame)
  note r2 = scheduler_loop_end [OF nn, where pf = ?pf and rid = rid
      and s = "start_state en config rid"]
  from r1 r3 l x have tr: "timed_run ?ops s2" and lr: "last_results s2"
    by simp_all
  from scheduler_loop_outcome [OF clean_run_start_state l] x have cl: "clean_run s2"
    by simp
  have fin: "final ?E = emit ?pf rid ''done'' (DoneData rid) None
      ((finish en rid s2)\<lparr>tracked := tracked (finish en rid s2)
          @ [analytics_call_of en ctx rid (cxt (finish en rid s2))],
        recorded := (if sink_fails en then recorded (finish en rid s2)
                     else recorded (finish en rid s2)
                       @ [analytics_call_of en ctx rid (cxt (finish en rid s2))])\<rparr>)"
    and rs: "raised ?E = None"
    by (simp_all add: execute_unfold [OF l] Let_def x)
  have iv: "invoked (final ?E) = invoked s2"
    and wa: "warnings (final ?E) = warnings s2"
    and cx: "cxt (final ?E) = finalize_context (cxt s2)"
    by (simp_all add: fin emit_fields finish_fields)
  from tr have sub: "executed s2 \<subseteq> name ` set (present ?ops)"
    by (simp add: timed_run_def)
  from rem all_executed [OF sub] have "\<not> length ?ops \<le> card (executed s2)"
    by (auto simp: ex)
  with r2 l x have w2: "warnings s2 = [remaining ?ops (executed s2)]"
    by (simp add: start_state_fields)
  have len: "length (timings (cxt s2)) = length (invoked s2)"
  proof -
    from tr have "map fst (timings (cxt s2)) = map fst (invoked s2)"
      by (simp add: timed_run_def)
    then have "length (map fst (timings (cxt s2))) = length (map fst (invoked s2))"
      by (rule arg_cong)
    then show ?thesis by simp
  qed
  have crd: "length (invoked s2) = card (executed s2)"
  proof -
    from tr have "card (set (map fst (invoked s2))) = length (map fst (invoked s2))"
      by (intro distinct_card) (simp add: timed_run_def)
    with tr show ?thesis
      by (simp add: timed_run_def)
  qed
  from tr have err: "errors (cxt s2) = []"
    by (simp add: timed_run_def)
  have sm: "execution_summary (cxt (final ?E))
         = Some \<lparr>operations_executed = length (invoked (final ?E)),
                 total_time_ms = sum_list (map snd (timings (cxt (final ?E)))),
                 errors_count = 0\<rparr>"
    unfolding cx iv
    using finalization_summary [of "cxt s2"] len err
    by (simp add: finalize_context_frame)
  have fr: "final_results (cxt (final ?E)) \<noteq> None"
    unfolding cx by (simp add: finalize_context_def Let_def split: option.splits)
  from cl have ok: "\<forall>c\<in>set (invoked (final ?E)). failure (snd c) = None"
    by (simp add: clean_run_def iv)
  have keep: "final_results (cxt (final ?E)) = Some []"
    if k: "\<forall>c\<in>set (invoked (final ?E)).
             new_raw_results (snd c) = None \<and> new_final_results (snd c) = None"
  proof -
    have "raw_results (cxt s2) = None \<and> final_results (cxt s2) = None"
    proof (cases "invoked s2 = []")
      case True
      with lr show ?thesis by (simp add: last_results_def)
    next
      case False
      then have "last (invoked s2) \<in> set (invoked s2)"
        by simp
      with k have "new_raw_results (snd (last (invoked s2))) = None"
        "new_final_results (snd (last (invoked s2))) = None"
        by (simp_all add: iv)
      with lr False show ?thesis by (simp add: last_results_def)
    qed
    then show ?thesis
      unfolding cx by (simp add: finalize_context_def Let_def)
  qed
  show ?thesis
    using rs w2 sm crd fr ok keep by (simp add: ex iv wa)
qed

lemma eval_cycle:
  "executed (final (execute env0 config_cycle ctx0 None)) = {}"
  "invoked (final (execute env0 config_cycle ctx0 None)) = []"
  by (simp_all add: config_cycle_def eval_defs)

theorem unsatisfiable_dependencies_witness:
  "distinct (map name (present (extract_operations_from_config config_cycle)))
   \<and> find_ready_operations (extract_operations_from_config config_cycle)
        (executed (final (execute env0 config_cycle ctx0 None))) = Inr []
   \<and> remaining (extract_operations_from_config config_cycle)
        (executed (final (execute env0 config_cycle ctx0 None))) = [''A'', ''B'']
   \<and> raised (execute env0 config_cycle ctx0 None) = None
   \<and> warnings (final (execute env0 config_cycle ctx0 None)) = [[''A'', ''B'']]
   \<and> final_results (cxt (final (execute env0 config_cycle ctx0 None))) = Some []
   \<and> map operations_executed
        (case execution_summary (cxt (final (execute env0 config_cycle ctx0 None))) of
           None \<Rightarrow> [] | Some sm \<Rightarrow> [sm]) = [0]"
proof -
  have h1: "distinct (map name (present (extract_operations_from_config config_cycle)))"
    by (simp add: config_cycle_def eval_defs)
  have h2: "find_ready_operations (extract_operations_from_config config_cycle)
        (executed (final (execute env0 config_cycle ctx0 None))) = Inr []"
    unfolding eval_cycle by (simp add: config_cycle_def eval_defs)
  have rem: "remaining (extract_operations_from_config config_cycle)
        (executed (final (execute env0 config_cycle ctx0 None))) = [''A'', ''B'']"
    unfolding eval_cycle by (simp add: config_cycle_def eval_defs)
  then have h3: "remaining (extract_operations_from_config config_cycle)
        (executed (final (execute env0 config_cycle ctx0 None))) \<noteq> []"
    by simp
  from unsatisfiable_dependencies [OF h1 h2 h3] h1 h2 rem
  show ?thesis
    by (simp add: eval_cycle)
qed

end
